theory Spec2Isabelle
  imports Complex_Main "HOL-Library.AList" "HOL-Library.Sublist" "HOL-Library.Log_Nat"
begin

section \<open>JavaScript numbers\<close>

text \<open>
  Every amount of the page is a JavaScript \<open>number\<close>, an IEEE 754 double. A finite double is
  a rational \<open>n * 2^q\<close> with an integer \<open>n\<close> of at most 53 bits and \<open>q \<ge> -1074\<close>; the result
  of an arithmetic operation is the exact result rounded to the nearest such number, a tie
  going to the one with an even \<open>n\<close>. \<open>bitlen k\<close> is the number of binary digits of \<open>k\<close>.

  \<open>expo x\<close> is the binary exponent of a positive \<open>x\<close> (\<open>2^(expo x) \<le> x < 2^(expo x + 1)\<close>),
  \<open>quantum x\<close> the exponent of the last place kept at \<open>x\<close> (never below \<open>-1074\<close>, which is
  gradual underflow), \<open>rne\<close> rounds to the nearest integer with ties to even, and \<open>rnd\<close> is
  the rounding of a rational to a double.
\<close>

definition expo :: "rat \<Rightarrow> int" where
  "expo x = (if 1 \<le> x then bitlen \<lfloor>x\<rfloor> - 1 else - bitlen (\<lceil>1 / x\<rceil> - 1))"

definition rne :: "rat \<Rightarrow> int" where
  "rne y = (let f = \<lfloor>y\<rfloor>; r = y - of_int f
            in if r < 1 / 2 then f else if 1 / 2 < r then f + 1
               else if even f then f else f + 1)"

definition quantum :: "rat \<Rightarrow> int" where
  "quantum x = max (expo x - 52) (- 1074)"

definition rndp :: "rat \<Rightarrow> rat" where
  "rndp x = of_int (rne (x / 2 powi quantum x)) * 2 powi quantum x"

definition rnd :: "rat \<Rightarrow> rat" where
  "rnd x = (if x = 0 then 0 else if x < 0 then - rndp (- x) else rndp x)"

text \<open>
  The type of finite doubles: the rationals that rounding leaves as they are. \<open>valOf\<close> is
  the exact value of a double and \<open>dbl x\<close> the double nearest to \<open>x\<close>, which is how a
  decimal literal or a parsed decimal string becomes a number: \<open>dbl (1999 / 100)\<close> is the
  number written \<open>19.99\<close>. Sum, difference and product are the exact ones rounded; the order
  is that of the values, and \<open>Math.min\<close> and \<open>Math.max\<close> are \<open>min\<close> and \<open>max\<close>.

  Three things are outside this type. The exponent has no upper bound here, so a result
  beyond the largest double (about \<open>1.8e308\<close>) stays finite where JavaScript gives
  \<open>Infinity\<close>; the model is that of the source on every run whose numbers stay below this
  bound. \<open>NaN\<close> arises in the source only from \<open>parseFloat\<close> and is \<open>None\<close> there. The two
  zeros are one: they compare equal, are both falsy and print alike.
\<close>

typedef double = "{x::rat. rnd x = x}"
  morphisms valOf Abs_double
  by (rule exI [of _ 0]) (simp add: rnd_def)

definition dbl :: "rat \<Rightarrow> double" where
  "dbl x = Abs_double (rnd x)"

text \<open>
  The operations compute on values: a double is given by its value, and two doubles are
  equal when their values are.
\<close>

declare valOf_inverse [code abstype]

instantiation double :: "{zero, plus, minus, times, linorder, equal}"
begin

definition equal_double_def: "HOL.equal a b \<longleftrightarrow> valOf a = valOf b"

definition zero_double_def: "0 = dbl 0"

definition plus_double_def: "a + b = dbl (valOf a + valOf b)"

definition minus_double_def: "a - b = dbl (valOf a - valOf b)"

definition times_double_def: "a * b = dbl (valOf a * valOf b)"

definition less_eq_double_def: "a \<le> b \<longleftrightarrow> valOf a \<le> valOf b"

definition less_double_def: "a < b \<longleftrightarrow> valOf a < valOf b"

instance
  by standard (auto simp: less_eq_double_def less_double_def equal_double_def valOf_inject)

end

text \<open>The length of an array as a number.\<close>

definition lengthNum :: "'a list \<Rightarrow> double" where
  "lengthNum xs = dbl (of_nat (length xs))"

text \<open>
  Two notions used to reason about rounding: the numbers \<open>n * 2^q\<close> with at most 53 bits
  and \<open>q \<ge> -1074\<close>, and the smallest positive double.
\<close>

definition representable :: "rat \<Rightarrow> bool" where
  "representable z \<longleftrightarrow> (\<exists>n q. z = of_int n * 2 powi q \<and> \<bar>n\<bar> \<le> 2 ^ 53 \<and> - 1074 \<le> q)"

definition tiny :: rat where
  "tiny = 2 powi (- 1074)"

section \<open>Data model of the treasury page (src/src/pages/Treasury.tsx)\<close>

text \<open>
  Amounts are JavaScript numbers. Calendar months and years are integers, fiscal month
  indices (array indices and loop counters counting up from 0) are naturals.
\<close>

type_synonym amount = double

text \<open>
  The interface \<open>Payment\<close> (a row of table \<open>monthly_payments\<close>). The fields \<open>id\<close> and
  \<open>notes\<close> carry a prime, their plain names being taken in Isabelle.
\<close>

record Payment =
  id' :: string
  member_id :: string
  month :: int
  year :: int
  amount :: amount
  paid_at :: "string option"
  status :: "string option"
  receipt_url :: "string option"
  quick_pay_group_id :: "string option"
  payment_type :: "string option"
  notes' :: "string option"
  created_at :: string
  updated_at :: "string option"

text \<open>
  The state \<open>payments : Record<string, Payment>\<close>: an object used as a dictionary. Its
  entries are kept in insertion order, which is what \<open>Object.entries\<close> enumerates.
\<close>

type_synonym payments = "(string \<times> Payment) list"

definition lookup :: "payments \<Rightarrow> string \<Rightarrow> Payment option" where
  "lookup ps k = map_of ps k"

section \<open>Keys and the fiscal calendar\<close>

text \<open>
  Template literals print an integer-valued number in decimal; \<open>numStr\<close> is that
  conversion for the integers that occur as months and years.
\<close>

function natStr :: "nat \<Rightarrow> string" where
  "natStr n = (if n < 10 then [''0123456789'' ! n]
               else natStr (n div 10) @ [''0123456789'' ! (n mod 10)])"
  by pat_completeness auto
termination
  by (relation "measure (\<lambda>n. n)") auto

declare natStr.simps [simp del]

definition numStr :: "int \<Rightarrow> string" where
  "numStr k = (if k < 0 then CHR ''-'' # natStr (nat (- k)) else natStr (nat k))"

text \<open>The key \<open>`${memberId}-${month}-${year}`\<close> used all over the page.\<close>

definition mkKey :: "string \<Rightarrow> int \<Rightarrow> int \<Rightarrow> string" where
  "mkKey memberId m y = memberId @ ''-'' @ numStr m @ ''-'' @ numStr y"

text \<open>
  \<open>getMonthYear\<close> (lines 157-161). \<open>currentCalendarYear\<close> and \<open>nextCalendarYear\<close> come
  from \<open>getFiscalYearInfo\<close> and are parameters here. The returned object
  \<open>{ month, year }\<close> is the pair \<open>(month, year)\<close>.
\<close>

definition getMonthYear :: "int \<Rightarrow> int \<Rightarrow> nat \<Rightarrow> int \<times> int" where
  "getMonthYear currentCalendarYear nextCalendarYear monthIndex =
     (let year = (if monthIndex < 6 then currentCalendarYear else nextCalendarYear);
          month = (if monthIndex < 6 then int monthIndex + 7 else int monthIndex - 5)
      in (month, year))"

text \<open>\<open>getPaymentKey\<close> (lines 151-155) repeats the same two conditionals.\<close>

definition getPaymentKey :: "int \<Rightarrow> int \<Rightarrow> string \<Rightarrow> nat \<Rightarrow> string" where
  "getPaymentKey currentCalendarYear nextCalendarYear memberId monthIndex =
     (let year = (if monthIndex < 6 then currentCalendarYear else nextCalendarYear);
          month = (if monthIndex < 6 then int monthIndex + 7 else int monthIndex - 5)
      in mkKey memberId month year)"

text \<open>
  The fiscal window of the specification: calendar months 7 to 12 of the current
  calendar year followed by months 1 to 6 of the next one.
\<close>

definition fiscalWindow :: "int \<Rightarrow> int \<Rightarrow> (int \<times> int) set" where
  "fiscalWindow cy ny = (\<lambda>m. (m, cy)) ` {7..12} \<union> (\<lambda>m. (m, ny)) ` {1..6}"

section \<open>Ledger aggregates\<close>

text \<open>The interface \<open>Member\<close>, as far as the page reads it.\<close>

record Member =
  m_id :: string
  full_name :: string
  degree :: "string option"
  phone :: "string option"

text \<open>
  \<open>totalAdeudado\<close> (lines 163-180). \<open>adeudadoStep\<close> is the body of the inner loop over
  \<open>i = 0, ..., 11\<close>, \<open>adeudado\<close> the value the loop leaves for one member and
  \<open>totalAdeudado\<close> the record built over \<open>filteredMembers\<close>.
\<close>

definition adeudadoStep :: "int \<Rightarrow> int \<Rightarrow> payments \<Rightarrow> amount \<Rightarrow> string \<Rightarrow> nat \<Rightarrow> amount \<Rightarrow> amount" where
  "adeudadoStep cy ny ps memberFee memberId i adeudado =
     (let key = getPaymentKey cy ny memberId i in
      case lookup ps key of
        None \<Rightarrow> adeudado + memberFee
      | Some payment \<Rightarrow>
          if payment_type payment \<noteq> Some ''pronto_pago_benefit'' \<and> amount payment < memberFee
          then adeudado + (memberFee - amount payment)
          else adeudado)"

definition adeudado :: "int \<Rightarrow> int \<Rightarrow> payments \<Rightarrow> amount \<Rightarrow> string \<Rightarrow> amount" where
  "adeudado cy ny ps memberFee memberId =
     fold (adeudadoStep cy ny ps memberFee memberId) [0..<12] 0"





section \<open>Single-payment distribution\<close>

text \<open>
  The state \<open>selectedPayment\<close>, set by \<open>handleCellClick\<close> (lines 224-247) when a cell of the
  table is clicked: the slot of the cell and the entry found there, if any. The form fields
  the same handler resets are inputs of the handlers below.
\<close>

record SelectedPayment =
  sp_memberId :: string
  sp_memberName :: string
  sp_monthIndex :: nat
  sp_month :: int
  sp_year :: int
  sp_payment :: "Payment option"

definition handleCellClick :: "int \<Rightarrow> int \<Rightarrow> payments \<Rightarrow> Member \<Rightarrow> nat \<Rightarrow> SelectedPayment" where
  "handleCellClick cy ny ps member monthIndex =
     (let key = getPaymentKey cy ny (m_id member) monthIndex;
          payment = lookup ps key;
          (month, year) = getMonthYear cy ny monthIndex
      in \<lparr>sp_memberId = m_id member, sp_memberName = full_name member,
          sp_monthIndex = monthIndex, sp_month = month, sp_year = year,
          sp_payment = payment\<rparr>)"

text \<open>
  What can be thrown inside the handlers: a property read on \<open>undefined\<close>, the error of
  \<open>uploadReceipt\<close>, and an error object returned by the store.
\<close>

datatype error = TypeError | UploadFailed | StoreError string

text \<open>The elements of \<open>allFM\<close> and of \<open>updates\<close> (lines 296-303).\<close>

record FiscalMonth =
  fm_monthIndex :: nat
  fm_month :: int
  fm_year :: int
  fm_key :: string

record Update =
  u_key :: string
  u_month :: int
  u_year :: int
  u_newAmt :: amount
  u_existing :: "Payment option"

definition allFM :: "int \<Rightarrow> int \<Rightarrow> string \<Rightarrow> FiscalMonth list" where
  "allFM cy ny memberId =
     map (\<lambda>i. let (month, year) = getMonthYear cy ny i
              in \<lparr>fm_monthIndex = i, fm_month = month, fm_year = year,
                  fm_key = mkKey memberId month year\<rparr>) [0..<12]"

text \<open>
  \<open>parseFloat(amount) || 0\<close>: the result of \<open>parseFloat\<close> on the form field is an input
  (called \<open>amountField\<close> below), \<open>None\<close> standing for \<open>NaN\<close>. \<open>ex?.amount || 0\<close> is 0 for a missing entry.
\<close>

definition orZero :: "amount option \<Rightarrow> amount" where
  "orZero parsed = (case parsed of None \<Rightarrow> 0 | Some a \<Rightarrow> if a = 0 then 0 else a)"

definition amountOr0 :: "Payment option \<Rightarrow> amount" where
  "amountOr0 ex = (case ex of None \<Rightarrow> 0 | Some p \<Rightarrow> if amount p = 0 then 0 else amount p)"

text \<open>\<open>ex?.payment_type === 'pronto_pago_benefit' || ex && ex.amount >= memberFee\<close>\<close>

definition skipSlot :: "amount \<Rightarrow> Payment option \<Rightarrow> bool" where
  "skipSlot memberFee ex =
     (case ex of None \<Rightarrow> False
      | Some p \<Rightarrow> payment_type p = Some ''pronto_pago_benefit'' \<or> amount p \<ge> memberFee)"

text \<open>
  The loops of lines 306-315 and 323-332 are
  \<open>for (let i = start; i < bound && rem > 0; i++)\<close> with the same body (the deficit is
  called \<open>space\<close> in the second): \<open>bound\<close> is \<open>selIdx\<close> with start 0 in the first and 12
  with start \<open>selIdx + 1\<close> in the second. Reading \<open>fm.key\<close> throws when \<open>allFM[i]\<close> is
  \<open>undefined\<close>.
\<close>

function distributeLoop ::
  "FiscalMonth list \<Rightarrow> payments \<Rightarrow> amount \<Rightarrow> nat \<Rightarrow> nat \<Rightarrow> amount \<Rightarrow> Update list
     \<Rightarrow> error + amount \<times> Update list" where
  "distributeLoop fms ps memberFee bound i rem updates =
     (if i < bound \<and> rem > 0 then
        (if length fms \<le> i then Inl TypeError
         else
           let fm = fms ! i; ex = lookup ps (fm_key fm) in
           if skipSlot memberFee ex
           then distributeLoop fms ps memberFee bound (Suc i) rem updates
           else
             let deficit = memberFee - amountOr0 ex in
             if deficit \<le> 0
             then distributeLoop fms ps memberFee bound (Suc i) rem updates
             else
               let apply = min rem deficit in
               distributeLoop fms ps memberFee bound (Suc i) (rem - apply)
                 (updates @ [\<lparr>u_key = fm_key fm, u_month = fm_month fm, u_year = fm_year fm,
                               u_newAmt = amountOr0 ex + apply, u_existing = ex\<rparr>]))
      else Inr (rem, updates))"
  by pat_completeness auto
termination
  by (relation "measure (\<lambda>(fms, ps, memberFee, bound, i, rem, updates). bound - i)") auto

declare distributeLoop.simps [simp del]

text \<open>The selected month, lines 317-321.\<close>

definition selectedStep ::
  "FiscalMonth list \<Rightarrow> amount \<Rightarrow> SelectedPayment \<Rightarrow> amount \<Rightarrow> Update list
     \<Rightarrow> error + amount \<times> Update list" where
  "selectedStep fms memberFee sel rem updates =
     (if rem > 0 then
        (if length fms \<le> sp_monthIndex sel then Inl TypeError
         else
           let apply = min rem memberFee in
           Inr (rem - apply,
                updates @ [\<lparr>u_key = fm_key (fms ! sp_monthIndex sel), u_month = sp_month sel,
                              u_year = sp_year sel, u_newAmt = apply, u_existing = None\<rparr>]))
      else Inr (rem, updates))"

text \<open>
  Lines 296-332 of \<open>handleSavePayment\<close>: the array \<open>updates\<close> computed for a new payment
  from the parsed amount, the fee, the selected cell and the ledger snapshot.
\<close>

definition computeUpdates ::
  "int \<Rightarrow> int \<Rightarrow> payments \<Rightarrow> amount \<Rightarrow> SelectedPayment \<Rightarrow> amount \<Rightarrow> error + Update list" where
  "computeUpdates cy ny ps memberFee sel parsedAmount =
     (let fms = allFM cy ny (sp_memberId sel);
          selIdx = sp_monthIndex sel
      in case distributeLoop fms ps memberFee selIdx 0 parsedAmount [] of
           Inl e \<Rightarrow> Inl e
         | Inr (rem, updates) \<Rightarrow>
             (case selectedStep fms memberFee sel rem updates of
                Inl e \<Rightarrow> Inl e
              | Inr (rem, updates) \<Rightarrow>
                  (case distributeLoop fms ps memberFee 12 (selIdx + 1) rem updates of
                     Inl e \<Rightarrow> Inl e
                   | Inr (rem, updates) \<Rightarrow> Inr updates)))"

text \<open>
  The amount an update adds to its slot, as an exact number: the value of the new amount
  less the value of the amount the slot held.
\<close>

definition delta :: "Update \<Rightarrow> rat" where
  "delta u = valOf (u_newAmt u) - (case u_existing u of None \<Rightarrow> 0 | Some e \<Rightarrow> valOf (amount e))"

subsection \<open>The allocation in the words of the specification\<close>

text \<open>
  An allocation plan is a list of slot mutations (month, year, resulting amount, entry
  that existed before, if any). The existing amount of a slot is that of its entry and 0
  when the slot is absent; a slot is skipped when it holds a benefit entry or its amount
  is at least the monthly fee. The three passes follow section 4.3 of the specification.
\<close>

type_synonym plan = "(int \<times> int \<times> amount \<times> Payment option) list"

definition spec_existingAmount :: "Payment option \<Rightarrow> amount" where
  "spec_existingAmount slot = (case slot of None \<Rightarrow> 0 | Some e \<Rightarrow> amount e)"

definition spec_isBenefit :: "Payment option \<Rightarrow> bool" where
  "spec_isBenefit slot =
     (case slot of None \<Rightarrow> False | Some e \<Rightarrow> payment_type e = Some ''pronto_pago_benefit'')"

definition spec_skip :: "amount \<Rightarrow> Payment option \<Rightarrow> bool" where
  "spec_skip monthlyFee slot = (spec_isBenefit slot \<or> spec_existingAmount slot \<ge> monthlyFee)"


definition spec_slot :: "int \<Rightarrow> int \<Rightarrow> payments \<Rightarrow> string \<Rightarrow> nat \<Rightarrow> Payment option" where
  "spec_slot cy ny ps memberId i =
     lookup ps (mkKey memberId (fst (getMonthYear cy ny i)) (snd (getMonthYear cy ny i)))"

definition spec_scan ::
  "int \<Rightarrow> int \<Rightarrow> payments \<Rightarrow> string \<Rightarrow> amount \<Rightarrow> nat \<Rightarrow> amount \<times> plan \<Rightarrow> amount \<times> plan" where
  "spec_scan cy ny ps memberId monthlyFee i st =
     (let remaining = fst st; slot = spec_slot cy ny ps memberId i in
      if remaining = 0 then st
      else if spec_skip monthlyFee slot then st
      else
        let deficit = monthlyFee - spec_existingAmount slot;
            applied = min remaining deficit
        in (remaining - applied,
            snd st @ [(fst (getMonthYear cy ny i), snd (getMonthYear cy ny i),
                       spec_existingAmount slot + applied, slot)]))"

definition spec_backfill ::
  "int \<Rightarrow> int \<Rightarrow> payments \<Rightarrow> string \<Rightarrow> amount \<Rightarrow> nat \<Rightarrow> amount \<Rightarrow> amount \<times> plan" where
  "spec_backfill cy ny ps memberId monthlyFee target lumpSum =
     fold (spec_scan cy ny ps memberId monthlyFee) [0..<target] (lumpSum, [])"

definition spec_target :: "int \<Rightarrow> int \<Rightarrow> amount \<Rightarrow> nat \<Rightarrow> amount \<times> plan \<Rightarrow> amount \<times> plan" where
  "spec_target cy ny monthlyFee target st =
     (let remaining = fst st in
      if remaining > 0
      then (remaining - min remaining monthlyFee,
            snd st @ [(fst (getMonthYear cy ny target), snd (getMonthYear cy ny target),
                       min remaining monthlyFee, None)])
      else st)"

definition spec_overflow ::
  "int \<Rightarrow> int \<Rightarrow> payments \<Rightarrow> string \<Rightarrow> amount \<Rightarrow> nat \<Rightarrow> amount \<times> plan \<Rightarrow> amount \<times> plan" where
  "spec_overflow cy ny ps memberId monthlyFee target st =
     (if fst st > 0
      then fold (spec_scan cy ny ps memberId monthlyFee) [Suc target..<12] st
      else st)"

definition spec_allocate ::
  "int \<Rightarrow> int \<Rightarrow> payments \<Rightarrow> string \<Rightarrow> amount \<Rightarrow> nat \<Rightarrow> amount \<Rightarrow> plan" where
  "spec_allocate cy ny ps memberId monthlyFee target lumpSum =
     snd (spec_overflow cy ny ps memberId monthlyFee target
            (spec_target cy ny monthlyFee target
               (spec_backfill cy ny ps memberId monthlyFee target lumpSum)))"

definition planOf :: "Update \<Rightarrow> int \<times> int \<times> amount \<times> Payment option" where
  "planOf u = (u_month u, u_year u, u_newAmt u, u_existing u)"

text \<open>
  The deficit of a slot and the total deficit across the twelve fiscal months as exact
  numbers: a skipped slot (benefit entry, or amount at least the fee) contributes 0, any
  other slot the fee less its existing amount.
\<close>

definition spec_deficit :: "amount \<Rightarrow> Payment option \<Rightarrow> rat" where
  "spec_deficit monthlyFee slot =
     (if spec_skip monthlyFee slot then 0
      else valOf monthlyFee - valOf (spec_existingAmount slot))"

definition spec_totalDeficit :: "int \<Rightarrow> int \<Rightarrow> payments \<Rightarrow> string \<Rightarrow> amount \<Rightarrow> rat" where
  "spec_totalDeficit cy ny ps memberId monthlyFee =
     (\<Sum>i \<leftarrow> [0..<12]. spec_deficit monthlyFee (spec_slot cy ny ps memberId i))"

section \<open>Distribution preview of the payment dialog\<close>

text \<open>
  \<open>distributionInfo\<close> (lines 183-209) collects one display line per affected slot:
  \<open>"<month name> <year>: +$a (completar)"\<close> for a month before the selected one,
  \<open>"<month name> <year>: $a"\<close> for the selected month and
  \<open>"<month name> <year>: $(existing + a) (excedente)"\<close> for a later month. A line is
  modelled by its kind, the month and year it names and the amount it prints; the
  rendering of the month name and \<open>toFixed(2)\<close> are left out.
\<close>

datatype PreviewLine =
    Completar int int amount
  | Seleccionado int int amount
  | Excedente int int amount

function previewOldest ::
  "int \<Rightarrow> int \<Rightarrow> payments \<Rightarrow> string \<Rightarrow> amount \<Rightarrow> nat \<Rightarrow> nat \<Rightarrow> amount \<Rightarrow> PreviewLine list
     \<Rightarrow> amount \<times> PreviewLine list" where
  "previewOldest cy ny ps memberId fee selIdx i rem affected =
     (if i < selIdx \<and> rem > 0 then
        (let my = getMonthYear cy ny i; month = fst my; year = snd my;
             key = mkKey memberId month year;
             ex = lookup ps key in
         if skipSlot fee ex
         then previewOldest cy ny ps memberId fee selIdx (Suc i) rem affected
         else
           let deficit = fee - amountOr0 ex in
           if deficit > 0
           then let a = min rem deficit in
                previewOldest cy ny ps memberId fee selIdx (Suc i) (rem - a)
                  (affected @ [Completar month year a])
           else previewOldest cy ny ps memberId fee selIdx (Suc i) rem affected)
      else (rem, affected))"
  by pat_completeness auto
termination
  by (relation "measure (\<lambda>(cy, ny, ps, memberId, fee, selIdx, i, rem, affected). selIdx - i)") auto

declare previewOldest.simps [simp del]

function previewOverflow ::
  "int \<Rightarrow> int \<Rightarrow> payments \<Rightarrow> string \<Rightarrow> amount \<Rightarrow> nat \<Rightarrow> amount \<Rightarrow> PreviewLine list
     \<Rightarrow> amount \<times> PreviewLine list" where
  "previewOverflow cy ny ps memberId fee i rem affected =
     (if i < 12 \<and> rem > 0 then
        (let my = getMonthYear cy ny i; month = fst my; year = snd my;
             key = mkKey memberId month year;
             ex = lookup ps key in
         if skipSlot fee ex
         then previewOverflow cy ny ps memberId fee (Suc i) rem affected
         else
           let space = fee - amountOr0 ex in
           if space > 0
           then let a = min rem space in
                previewOverflow cy ny ps memberId fee (Suc i) (rem - a)
                  (affected @ [Excedente month year (amountOr0 ex + a)])
           else previewOverflow cy ny ps memberId fee (Suc i) rem affected)
      else (rem, affected))"
  by pat_completeness auto
termination
  by (relation "measure (\<lambda>(cy, ny, ps, memberId, fee, i, rem, affected). 12 - i)") auto

declare previewOverflow.simps [simp del]

text \<open>The array \<open>affected\<close> when line 208 is reached.\<close>

definition distributionAffected ::
  "int \<Rightarrow> int \<Rightarrow> payments \<Rightarrow> amount \<Rightarrow> SelectedPayment \<Rightarrow> amount \<Rightarrow> PreviewLine list" where
  "distributionAffected cy ny ps fee sel parsedAmt =
     (let selIdx = sp_monthIndex sel;
          (rem, affected) = previewOldest cy ny ps (sp_memberId sel) fee selIdx 0 parsedAmt [];
          (rem, affected) =
             (if rem > 0
              then (rem - min rem fee, affected @ [Seleccionado (sp_month sel) (sp_year sel) (min rem fee)])
              else (rem, affected));
          (rem, affected) = previewOverflow cy ny ps (sp_memberId sel) fee (selIdx + 1) rem affected
      in affected)"

definition distributionInfo ::
  "int \<Rightarrow> int \<Rightarrow> payments \<Rightarrow> amount \<Rightarrow> SelectedPayment option \<Rightarrow> amount option
     \<Rightarrow> PreviewLine list option" where
  "distributionInfo cy ny ps monthly_fee_base selectedPayment amountField =
     (case selectedPayment of
        None \<Rightarrow> None
      | Some sel \<Rightarrow>
          if sp_payment sel \<noteq> None then None
          else
            let parsedAmt = orZero amountField; fee = monthly_fee_base in
            if parsedAmt \<le> 0 then None
            else
              let affected = distributionAffected cy ny ps fee sel parsedAmt in
              if length affected > 1 then Some affected else None)"

text \<open>
  One step of a distribution: the pass it belongs to, the month and year of its slot, the
  entry found there and the amount applied. \<open>lineOf\<close> is the line the preview shows for a
  step and \<open>updateOf\<close> the element of \<open>updates\<close> the save operation pushes for it.
\<close>

datatype Pass = Oldest | Selected | Overflow

type_synonym step = "Pass \<times> int \<times> int \<times> Payment option \<times> amount"

fun lineOf :: "step \<Rightarrow> PreviewLine" where
  "lineOf (Oldest, m, y, ex, a) = Completar m y a"
| "lineOf (Selected, m, y, ex, a) = Seleccionado m y a"
| "lineOf (Overflow, m, y, ex, a) = Excedente m y (amountOr0 ex + a)"

fun updateOf :: "string \<Rightarrow> step \<Rightarrow> Update" where
  "updateOf memberId (Selected, m, y, ex, a) =
     \<lparr>u_key = mkKey memberId m y, u_month = m, u_year = y, u_newAmt = a, u_existing = None\<rparr>"
| "updateOf memberId (Oldest, m, y, ex, a) =
     \<lparr>u_key = mkKey memberId m y, u_month = m, u_year = y, u_newAmt = amountOr0 ex + a,
      u_existing = ex\<rparr>"
| "updateOf memberId (Overflow, m, y, ex, a) =
     \<lparr>u_key = mkKey memberId m y, u_month = m, u_year = y, u_newAmt = amountOr0 ex + a,
      u_existing = ex\<rparr>"

section \<open>Handlers and their effects\<close>

text \<open>
  A handler is modelled by the list of effects it performs, in order: calls to the file
  storage, calls to the store (table \<open>monthly_payments\<close>), updates of the page state and
  toasts. What the environment answers is an input. The busy flags
  (\<open>setUploading\<close>, \<open>setProcessingQuickPay\<close>, \<open>setProcessingAdvancePayment\<close>), the write-through
  cache \<open>upsertCachedMonthlyPayment\<close> and the text fields of the receipt data (names,
  concept, detail lines) are left out.
\<close>

text \<open>
  A chosen receipt file together with the answer of the storage to its upload.
  \<open>uploadReceipt\<close> (lines 249-257) throws on a storage error and returns the public URL
  otherwise.
\<close>

datatype Upload = UploadOk string | UploadFails

definition uploadReceipt :: "Upload \<Rightarrow> error + string option" where
  "uploadReceipt file = (case file of UploadFails \<Rightarrow> Inl UploadFailed | UploadOk url \<Rightarrow> Inr (Some url))"

text \<open>
  The toasts of the three handlers. Source texts:
  \<open>MontoMayorCero\<close>: title \<open>Error\<close>, \<open>El monto debe ser mayor a 0\<close>;
  \<open>FechaRequerida\<close>: title \<open>Error\<close>, \<open>Debe seleccionar una fecha de pago\<close>;
  \<open>TodosRegistrados\<close>: title \<open>Atencion\<close>,
  \<open>Este miembro ya tiene todos los pagos del ano logial actual registrados\<close>;
  \<open>ErrorToast e\<close>: title \<open>Error\<close> with the message of the caught error \<open>e\<close> (or the
  handler's fallback text); these four have \<open>variant: 'destructive'\<close>.
  \<open>PagoActualizado\<close>, \<open>PagoGuardado\<close>, \<open>PagoDistribuido n\<close> (\<open>n\<close> months),
  \<open>ProntoPagoRegistrado n free\<close> and \<open>AdelantadoRegistrado n\<close> report success.
\<close>

datatype Toast =
    MontoMayorCero
  | FechaRequerida
  | TodosRegistrados
  | ErrorToast error
  | PagoActualizado
  | PagoGuardado
  | PagoDistribuido nat
  | ProntoPagoRegistrado nat bool
  | AdelantadoRegistrado nat

fun destructive :: "Toast \<Rightarrow> bool" where
  "destructive MontoMayorCero = True"
| "destructive FechaRequerida = True"
| "destructive TodosRegistrados = True"
| "destructive (ErrorToast e) = True"
| "destructive t = False"

text \<open>
  The object passed to \<open>.update(...)\<close>. The edit path sends \<open>payment_type\<close>, the top-up
  path does not: \<open>f_payment_type = None\<close> means the column is not part of the update.
\<close>

record UpdateFields =
  f_amount :: amount
  f_paid_at :: "string option"
  f_receipt_url :: "string option"
  f_payment_type :: "string option"
  f_notes :: "string option"

text \<open>A row passed to \<open>.insert(...)\<close>; \<open>i_quick_pay_group_id = None\<close> when the row has no such property.\<close>

record InsertRow =
  i_member_id :: string
  i_month :: int
  i_year :: int
  i_amount :: amount
  i_paid_at :: "string option"
  i_receipt_url :: "string option"
  i_quick_pay_group_id :: "string option"
  i_payment_type :: string
  i_notes :: "string option"

record ReceiptData =
  r_totalAmount :: amount
  r_amountPaid :: amount
  r_paymentDate :: string
  r_remaining :: amount

datatype Effect =
    UploadReceipt string
  | StoreUpdate string UpdateFields
  | StoreInsert "InsertRow list"
  | SetPayments payments
  | SetPendingReceiptData ReceiptData
  | SetQuickPayPendingReceipt ReceiptData
  | SetAdvancePendingReceipt ReceiptData
  | ShowToast Toast
  | LoadData

fun isStoreCall :: "Effect \<Rightarrow> bool" where
  "isStoreCall (StoreUpdate rowId patch) = True"
| "isStoreCall (StoreInsert rows) = True"
| "isStoreCall e = False"

text \<open>The answer of the store to a single-row call: \<open>{ data, error }\<close>.\<close>

datatype StoreResp = RespError string | RespData "Payment option"

text \<open>\<open>s || null\<close> on a string and on a string that may be missing.\<close>

definition orNull :: "string \<Rightarrow> string option" where
  "orNull s = (if s = [] then None else Some s)"

definition orNullOpt :: "string option \<Rightarrow> string option" where
  "orNullOpt s = (case s of None \<Rightarrow> None | Some t \<Rightarrow> orNull t)"

text \<open>The optional upload in front of each handler body: the effects and the URL or the error.\<close>

definition uploadIfChosen :: "Upload option \<Rightarrow> string \<Rightarrow> string option \<Rightarrow> Effect list \<times> (error + string option)" where
  "uploadIfChosen file folder current =
     (case file of
        None \<Rightarrow> ([], Inr current)
      | Some f \<Rightarrow> ([UploadReceipt folder], uploadReceipt f))"

subsection \<open>\<open>handleSavePayment\<close> (lines 259-382)\<close>

text \<open>The fields of the payment dialog.\<close>

record SaveForm =
  form_amount :: "amount option"
  form_paymentDate :: string
  form_notes :: string
  form_receiptFile :: "Upload option"
  form_secondReceiptFile :: "Upload option"

text \<open>
  Lines 271-293, editing an existing payment: the local copy of the entry is replaced,
  one update is sent to the store, and on success the receipt data and a toast follow.
\<close>

definition editExisting ::
  "payments \<Rightarrow> amount \<Rightarrow> string \<Rightarrow> SelectedPayment \<Rightarrow> Payment \<Rightarrow> amount \<Rightarrow> string option
     \<Rightarrow> string option \<Rightarrow> string \<Rightarrow> StoreResp \<Rightarrow> Effect list \<times> error option" where
  "editExisting ps memberFee systemDate sel payment parsedAmount date receiptUrl notesField resp =
     (let memberId = sp_memberId sel;
          paymentData = \<lparr>f_amount = parsedAmount, f_paid_at = date, f_receipt_url = receiptUrl,
                         f_payment_type = Some ''regular'', f_notes = orNull notesField\<rparr>;
          key = mkKey memberId (sp_month sel) (sp_year sel);
          newPayments = AList.update key
             (payment\<lparr>amount := parsedAmount, paid_at := date, receipt_url := receiptUrl,
                       payment_type := Some ''regular'', notes' := orNull notesField,
                       member_id := memberId, month := sp_month sel, year := sp_year sel\<rparr>) ps;
          calls = [SetPayments newPayments, StoreUpdate (id' payment) paymentData]
      in case resp of
           RespError msg \<Rightarrow> (calls, Some (StoreError msg))
         | RespData d \<Rightarrow>
             (let remaining = (if parsedAmount < memberFee then memberFee - parsedAmount else 0)
              in (calls @
                  [SetPendingReceiptData
                     \<lparr>r_totalAmount = memberFee, r_amountPaid = parsedAmount,
                      r_paymentDate = (case date of None \<Rightarrow> systemDate | Some d \<Rightarrow> d),
                      r_remaining = remaining\<rparr>,
                   ShowToast PagoActualizado], None)))"

text \<open>
  Lines 337-355: one store call per update, an update of the stored row when the slot had
  an entry and an insert otherwise; the first error stops the loop. \<open>resp k\<close> is the
  answer to call number \<open>k\<close>.
\<close>

fun applyUpdates ::
  "SelectedPayment \<Rightarrow> string option \<Rightarrow> string option \<Rightarrow> string option \<Rightarrow> string
     \<Rightarrow> (nat \<Rightarrow> StoreResp) \<Rightarrow> nat \<Rightarrow> Update list \<Rightarrow> payments
     \<Rightarrow> Effect list \<times> (error + payments)" where
  "applyUpdates sel date receiptUrl secondUrl notesField resp k [] newPayments =
     ([], Inr newPayments)"
| "applyUpdates sel date receiptUrl secondUrl notesField resp k (u # us) newPayments =
     (let isSel = (u_month u = sp_month sel \<and> u_year u = sp_year sel);
          pd_receipt_url =
            (if isSel then receiptUrl
             else (case orNullOpt secondUrl of Some s \<Rightarrow> Some s | None \<Rightarrow> receiptUrl));
          pd_notes = (if isSel then orNull notesField else None);
          call = (case u_existing u of
                    Some existing \<Rightarrow>
                      StoreUpdate (id' existing)
                        \<lparr>f_amount = u_newAmt u, f_paid_at = date, f_receipt_url = pd_receipt_url,
                         f_payment_type = None, f_notes = pd_notes\<rparr>
                  | None \<Rightarrow>
                      StoreInsert
                        [\<lparr>i_member_id = sp_memberId sel, i_month = u_month u, i_year = u_year u,
                          i_amount = u_newAmt u, i_paid_at = date,
                          i_receipt_url = pd_receipt_url, i_quick_pay_group_id = None,
                          i_payment_type = ''regular'', i_notes = pd_notes\<rparr>])
      in case resp k of
           RespError msg \<Rightarrow> ([call], Inl (StoreError msg))
         | RespData d \<Rightarrow>
             (let newPayments' =
                    (case d of None \<Rightarrow> newPayments
                     | Some row \<Rightarrow> AList.update (u_key u) row newPayments);
                  rest = applyUpdates sel date receiptUrl secondUrl notesField resp (Suc k) us
                           newPayments'
              in (call # fst rest, snd rest)))"

text \<open>Lines 295-374, a new payment: distribution, second upload, store calls, receipt and toast.\<close>

definition saveNew ::
  "int \<Rightarrow> int \<Rightarrow> payments \<Rightarrow> amount \<Rightarrow> string \<Rightarrow> SelectedPayment \<Rightarrow> amount \<Rightarrow> string option
     \<Rightarrow> string option \<Rightarrow> SaveForm \<Rightarrow> (nat \<Rightarrow> StoreResp) \<Rightarrow> Effect list \<times> error option" where
  "saveNew cy ny ps memberFee systemDate sel parsedAmount date receiptUrl form resp =
     (case computeUpdates cy ny ps memberFee sel parsedAmount of
        Inl e \<Rightarrow> ([], Some e)
      | Inr updates \<Rightarrow>
          (let second = (if form_secondReceiptFile form \<noteq> None \<and> length updates > 1
                         then uploadIfChosen (form_secondReceiptFile form) ''monthly'' None
                         else ([], Inr None))
           in case snd second of
                Inl e \<Rightarrow> (fst second, Some e)
              | Inr secondUrl \<Rightarrow>
                  (let applied = applyUpdates sel date receiptUrl secondUrl (form_notes form)
                                   resp 0 updates ps
                   in case snd applied of
                        Inl e \<Rightarrow> (fst second @ fst applied, Some e)
                      | Inr newPayments \<Rightarrow>
                          (fst second @ fst applied @
                           [SetPayments newPayments,
                            SetPendingReceiptData
                              \<lparr>r_totalAmount = parsedAmount, r_amountPaid = parsedAmount,
                               r_paymentDate = (case date of None \<Rightarrow> systemDate | Some d \<Rightarrow> d),
                               r_remaining = 0\<rparr>,
                            ShowToast (if length updates > 1 then PagoDistribuido (length updates)
                                       else PagoGuardado)], None))))"

definition handleSavePayment ::
  "int \<Rightarrow> int \<Rightarrow> payments \<Rightarrow> amount \<Rightarrow> string \<Rightarrow> SelectedPayment option \<Rightarrow> SaveForm
     \<Rightarrow> (nat \<Rightarrow> StoreResp) \<Rightarrow> Effect list" where
  "handleSavePayment cy ny ps monthly_fee_base systemDate selectedPayment form resp =
     (case selectedPayment of
        None \<Rightarrow> []
      | Some sel \<Rightarrow>
          (let up = uploadIfChosen (form_receiptFile form) ''monthly''
                      (orNullOpt (case sp_payment sel of None \<Rightarrow> None | Some p \<Rightarrow> receipt_url p));
               body =
                 (case snd up of
                    Inl e \<Rightarrow> ([], Some e)
                  | Inr receiptUrl \<Rightarrow>
                      (let parsedAmount = orZero (form_amount form);
                           memberFee = monthly_fee_base;
                           date = orNull (form_paymentDate form)
                       in case sp_payment sel of
                            Some payment \<Rightarrow>
                              editExisting ps memberFee systemDate sel payment parsedAmount date
                                receiptUrl (form_notes form) (resp 0)
                          | None \<Rightarrow>
                              saveNew cy ny ps memberFee systemDate sel parsedAmount date
                                receiptUrl form resp))
           in case snd body of
                None \<Rightarrow> fst up @ fst body
              | Some e \<Rightarrow> fst up @ fst body @ [LoadData, ShowToast (ErrorToast e)]))"

subsection \<open>\<open>handleQuickPay\<close> (lines 443-540)\<close>

record QuickPayState =
  qp_memberId :: string
  qp_memberName :: string
  qp_defaultAmount :: amount

definition openQuickPay :: "amount \<Rightarrow> Member \<Rightarrow> QuickPayState" where
  "openQuickPay monthly_fee_base member =
     \<lparr>qp_memberId = m_id member, qp_memberName = full_name member,
      qp_defaultAmount = monthly_fee_base\<rparr>"

text \<open>Lines 460-465: the fiscal months of the member without an entry, as fiscal indices in order.\<close>

definition currentYearPending :: "int \<Rightarrow> int \<Rightarrow> payments \<Rightarrow> string \<Rightarrow> nat list" where
  "currentYearPending cy ny ps memberId =
     filter (\<lambda>monthIndex.
               let my = getMonthYear cy ny monthIndex;
                   key = mkKey memberId (fst my) (snd my)
               in lookup ps key = None) [0..<12]"

definition quickPayRow ::
  "int \<Rightarrow> int \<Rightarrow> string \<Rightarrow> amount \<Rightarrow> string \<Rightarrow> string option \<Rightarrow> string \<Rightarrow> string \<Rightarrow> nat \<Rightarrow> InsertRow" where
  "quickPayRow cy ny memberId amt quickPayDate receiptUrl quickPayGroupId ptype monthIndex =
     \<lparr>i_member_id = memberId, i_month = fst (getMonthYear cy ny monthIndex),
      i_year = snd (getMonthYear cy ny monthIndex), i_amount = amt,
      i_paid_at = Some quickPayDate, i_receipt_url = receiptUrl,
      i_quick_pay_group_id = Some quickPayGroupId, i_payment_type = ptype,
      i_notes = Some ''Pago registrado mediante Pronto Pago.''\<rparr>"

text \<open>
  \<open>quickPayGroupId\<close> is the value of \<open>crypto.randomUUID()\<close>, \<open>insertError\<close> the error of the
  bulk insert, if any.
\<close>

definition handleQuickPay ::
  "int \<Rightarrow> int \<Rightarrow> payments \<Rightarrow> QuickPayState option \<Rightarrow> amount option \<Rightarrow> string \<Rightarrow> Upload option
     \<Rightarrow> string \<Rightarrow> string option \<Rightarrow> Effect list" where
  "handleQuickPay cy ny ps showQuickPay quickPayAmount quickPayDate quickPayReceipt
       quickPayGroupId insertError =
     (case showQuickPay of
        None \<Rightarrow> []
      | Some sq \<Rightarrow>
          (case quickPayAmount of
             None \<Rightarrow> [ShowToast MontoMayorCero]
           | Some parsedAmount \<Rightarrow>
               if parsedAmount = 0 \<or> parsedAmount \<le> 0 then [ShowToast MontoMayorCero]
               else if quickPayDate = [] then [ShowToast FechaRequerida]
               else
                 (let up = uploadIfChosen quickPayReceipt ''quick-pay'' None in
                  case snd up of
                    Inl e \<Rightarrow> fst up @ [ShowToast (ErrorToast e)]
                  | Inr receiptUrl \<Rightarrow>
                      (let pending = currentYearPending cy ny ps (qp_memberId sq) in
                       if length pending = 0 then fst up @ [ShowToast TodosRegistrados]
                       else
                         (let monthsToPay = take (min (length pending) 11) pending;
                              freeMonth = (if length pending \<ge> 12 then Some (pending ! 11) else None);
                              paymentsToInsert =
                                map (quickPayRow cy ny (qp_memberId sq) parsedAmount quickPayDate
                                       receiptUrl quickPayGroupId ''pronto_pago'') monthsToPay
                                @ (case freeMonth of
                                     None \<Rightarrow> []
                                   | Some fm \<Rightarrow>
                                       [quickPayRow cy ny (qp_memberId sq) 0 quickPayDate
                                          receiptUrl quickPayGroupId ''pronto_pago_benefit'' fm]);
                              totalPaid = parsedAmount * lengthNum monthsToPay
                          in case insertError of
                               Some msg \<Rightarrow>
                                 fst up @ [StoreInsert paymentsToInsert,
                                           ShowToast (ErrorToast (StoreError msg))]
                             | None \<Rightarrow>
                                 fst up @
                                 [StoreInsert paymentsToInsert,
                                  SetQuickPayPendingReceipt
                                    \<lparr>r_totalAmount = totalPaid, r_amountPaid = totalPaid,
                                     r_paymentDate = quickPayDate, r_remaining = 0\<rparr>,
                                  ShowToast (ProntoPagoRegistrado (length monthsToPay)
                                               (freeMonth \<noteq> None)),
                                  LoadData])))))"

subsection \<open>\<open>handleAdvancePayment\<close> (lines 542-604)\<close>

record AdvanceState =
  ap_memberId :: string
  ap_memberName :: string
  ap_memberMonthlyAmount :: amount

definition openAdvancePayment :: "amount \<Rightarrow> Member \<Rightarrow> AdvanceState" where
  "openAdvancePayment monthly_fee_base member =
     \<lparr>ap_memberId = m_id member, ap_memberName = full_name member,
      ap_memberMonthlyAmount = monthly_fee_base\<rparr>"

text \<open>The argument \<open>data\<close> the dialog passes to the handler.\<close>

record AdvanceData =
  ad_totalAmount :: amount
  ad_selectedMonths :: "(int \<times> int) list"
  ad_paymentDate :: string
  ad_receiptFile :: "Upload option"

definition handleAdvancePayment ::
  "AdvanceState option \<Rightarrow> AdvanceData \<Rightarrow> string \<Rightarrow> string option \<Rightarrow> Effect list" where
  "handleAdvancePayment showAdvancePayment data advancePayGroupId insertError =
     (case showAdvancePayment of
        None \<Rightarrow> []
      | Some sa \<Rightarrow>
          (let up = uploadIfChosen (ad_receiptFile data) ''advance-pay'' None in
           case snd up of
             Inl e \<Rightarrow> fst up @ [ShowToast (ErrorToast e)]
           | Inr receiptUrl \<Rightarrow>
               (let monthlyAmount = ap_memberMonthlyAmount sa;
                    noteText = ''Pago registrado mediante Pago por Adelantado (''
                                 @ numStr (int (length (ad_selectedMonths data))) @ '' meses).'';
                    paymentsToInsert =
                      map (\<lambda>(m, y).
                             \<lparr>i_member_id = ap_memberId sa, i_month = m, i_year = y,
                              i_amount = monthlyAmount, i_paid_at = Some (ad_paymentDate data),
                              i_receipt_url = receiptUrl,
                              i_quick_pay_group_id = Some advancePayGroupId,
                              i_payment_type = ''adelantado'', i_notes = Some noteText\<rparr>)
                          (ad_selectedMonths data)
                in case insertError of
                     Some msg \<Rightarrow>
                       fst up @ [StoreInsert paymentsToInsert,
                                 ShowToast (ErrorToast (StoreError msg))]
                   | None \<Rightarrow>
                       fst up @
                       [StoreInsert paymentsToInsert,
                        SetAdvancePendingReceipt
                          \<lparr>r_totalAmount = ad_totalAmount data, r_amountPaid = ad_totalAmount data,
                           r_paymentDate = ad_paymentDate data, r_remaining = 0\<rparr>,
                        ShowToast (AdelantadoRegistrado (length paymentsToInsert)),
                        LoadData])))"

text \<open>
  Modelled from the spec: the component \<open>AdvancePaymentDialog\<close>, which builds the argument
  of \<open>handleAdvancePayment\<close>, is not among the sources. Section 4.5 of the specification
  gives its total: \<open>monthlyFee * count(selectedMonths)\<close>.
\<close>

definition spec_advanceDialogSubmit ::
  "amount \<Rightarrow> (int \<times> int) list \<Rightarrow> string \<Rightarrow> Upload option \<Rightarrow> AdvanceData" where
  "spec_advanceDialogSubmit memberMonthlyAmount selectedMonths paymentDate receiptFile =
     \<lparr>ad_totalAmount = memberMonthlyAmount * lengthNum selectedMonths,
      ad_selectedMonths = selectedMonths, ad_paymentDate = paymentDate,
      ad_receiptFile = receiptFile\<rparr>"

subsection \<open>The store\<close>

text \<open>
  \<open>.update(patch).eq('id', rowId)\<close> on table \<open>monthly_payments\<close>: the columns of the object
  are assigned in every row with that id, and the trigger
  \<open>update_monthly_payments_updated_at\<close> of the migrations stamps \<open>updated_at\<close>.
\<close>

definition applyFields :: "UpdateFields \<Rightarrow> Payment \<Rightarrow> Payment" where
  "applyFields patch row =
     row\<lparr>amount := f_amount patch, paid_at := f_paid_at patch,
         receipt_url := f_receipt_url patch,
         payment_type := (case f_payment_type patch of None \<Rightarrow> payment_type row | Some t \<Rightarrow> Some t),
         notes' := f_notes patch\<rparr>"

definition storeUpdate :: "string \<Rightarrow> string \<Rightarrow> UpdateFields \<Rightarrow> Payment list \<Rightarrow> Payment list" where
  "storeUpdate now rowId patch table =
     map (\<lambda>row. if id' row = rowId then (applyFields patch row)\<lparr>updated_at := Some now\<rparr> else row)
         table"

text \<open>
  The quick-pay entries in the words of the specification (section 4.4): a \<open>quick_pay\<close>
  entry at the per-month amount on each of the first eleven empty slots in fiscal-month
  order, and an entry of amount 0 and type \<open>quick_pay_benefit\<close> on the twelfth empty slot
  if there is one; all with the same group identifier, date and receipt.
\<close>

definition spec_emptySlots :: "int \<Rightarrow> int \<Rightarrow> payments \<Rightarrow> string \<Rightarrow> nat list" where
  "spec_emptySlots cy ny ps memberId = [i \<leftarrow> [0..<12]. spec_slot cy ny ps memberId i = None]"

definition spec_quickPayEntries ::
  "int \<Rightarrow> int \<Rightarrow> payments \<Rightarrow> string \<Rightarrow> amount \<Rightarrow> string \<Rightarrow> string option \<Rightarrow> string \<Rightarrow> InsertRow list" where
  "spec_quickPayEntries cy ny ps memberId perMonthAmount paymentDate receipt groupId =
     (let empty = spec_emptySlots cy ny ps memberId;
          entry = (\<lambda>amt ptype i.
                     \<lparr>i_member_id = memberId, i_month = fst (getMonthYear cy ny i),
                      i_year = snd (getMonthYear cy ny i), i_amount = amt,
                      i_paid_at = Some paymentDate, i_receipt_url = receipt,
                      i_quick_pay_group_id = Some groupId, i_payment_type = ptype,
                      i_notes = Some ''Pago registrado mediante Pronto Pago.''\<rparr>)
      in map (entry perMonthAmount ''pronto_pago'') (take 11 empty)
         @ (if length empty \<ge> 12 then [entry 0 ''pronto_pago_benefit'' (empty ! 11)] else []))"

subsection \<open>Example data\<close>

text \<open>
  A small ledger for fiscal year 2025-2026: member \<open>m1\<close> has paid 30 of the fee for July
  2025 and holds a benefit entry for August 2025.
\<close>

definition exPartial :: Payment where
  "exPartial = \<lparr>id' = ''p1'', member_id = ''m1'', month = 7, year = 2025, amount = dbl 30,
     paid_at = Some ''2025-07-03'', status = Some ''paid'', receipt_url = None,
     quick_pay_group_id = None, payment_type = Some ''regular'', notes' = None,
     created_at = ''2025-07-03'', updated_at = None\<rparr>"

definition exBenefit :: Payment where
  "exBenefit = \<lparr>id' = ''p2'', member_id = ''m1'', month = 8, year = 2025, amount = 0,
     paid_at = Some ''2025-07-03'', status = Some ''paid'', receipt_url = None,
     quick_pay_group_id = Some ''g1'', payment_type = Some ''pronto_pago_benefit'',
     notes' = None, created_at = ''2025-07-03'', updated_at = None\<rparr>"

definition exLedger :: payments where
  "exLedger = [(''m1-7-2025'', exPartial), (''m1-8-2025'', exBenefit)]"

definition exMember :: Member where
  "exMember = \<lparr>m_id = ''m1'', full_name = ''A'', degree = None, phone = None\<rparr>"


text \<open>A ledger in which member \<open>m1\<close> has paid 1.95 for July 2025 and nothing else.\<close>

definition exTopUp :: payments where
  "exTopUp = [(''m1-7-2025'', exPartial\<lparr>amount := dbl (195 / 100)\<rparr>)]"

text \<open>A ledger in which member \<open>m1\<close> has an entry in each of the twelve fiscal months.\<close>

definition exFullLedger :: payments where
  "exFullLedger =
     map (\<lambda>i. (getPaymentKey 2025 2026 ''m1'' i,
               exPartial\<lparr>id' := ''r'' @ natStr i, month := fst (getMonthYear 2025 2026 i),
                         year := snd (getMonthYear 2025 2026 i), amount := dbl 50\<rparr>)) [0..<12]"

text \<open>The payment dialog filled with an amount, a date, no note and no receipt file.\<close>

definition exForm :: "amount \<Rightarrow> SaveForm" where
  "exForm a = \<lparr>form_amount = Some a, form_paymentDate = ''2025-07-04'', form_notes = [],
               form_receiptFile = None, form_secondReceiptFile = None\<rparr>"

text \<open>A store that answers every call without error and without returning a row.\<close>

definition exRespOk :: "nat \<Rightarrow> StoreResp" where
  "exRespOk k = RespData None"

text \<open>
  The frame of an edit in the words of the specification: the entry changes in at most
  its amount, payment date, note and receipt reference.
\<close>

definition spec_onlyFourFields :: "Payment \<Rightarrow> Payment \<Rightarrow> bool" where
  "spec_onlyFourFields old new =
     (new = old\<lparr>amount := amount new, paid_at := paid_at new, notes' := notes' new,
                receipt_url := receipt_url new\<rparr>)"
section \<open>Rounding\<close>

text \<open>
  The facts about rounding that the proofs below use: a representable number is a fixed
  point of \<open>rnd\<close> and every rounded number is representable, so \<open>rnd\<close> is idempotent and
  \<open>valOf (dbl x) = rnd x\<close>; rounding keeps the sign; and the difference of two distinct
  doubles never rounds to zero, because every double is a multiple of the smallest one.
\<close>

lemma expo_bounds:
  assumes "0 < x"
  shows "2 powi expo x \<le> x" and "x < 2 powi (expo x + 1)"
proof -
  show "2 powi expo x \<le> x"
  proof (cases "1 \<le> x")
    case True
    define m where "m = nat \<lfloor>x\<rfloor>"
    define k where "k = floorlog 2 m"
    from True have m: "0 < m" by (simp add: m_def)
    from floorlog_bounds [OF m, of 2] have b: "2 ^ (k - 1) \<le> m" "m < 2 ^ k"
      by (simp_all add: k_def)
    from b(2) m have k: "1 \<le> k" by (cases k) auto
    have e: "expo x = int (k - 1)" using True k by (simp add: expo_def bitlen_def k_def m_def)
    have "(2::rat) powi expo x = 2 ^ (k - 1)" by (simp add: e)
    also have "\<dots> \<le> of_nat m" using b(1) by (metis of_nat_le_iff of_nat_numeral of_nat_power)
    also have "\<dots> = of_int \<lfloor>x\<rfloor>" using True by (simp add: m_def)
    also have "\<dots> \<le> x" by simp
    finally show ?thesis .
  next
    case False
    define c where "c = \<lceil>1 / x\<rceil>"
    define m where "m = nat (c - 1)"
    define k where "k = floorlog 2 m"
    from False assms have y: "1 < 1 / x" by simp
    then have c: "2 \<le> c" unfolding c_def by (simp add: le_ceiling_iff)
    then have m: "0 < m" by (simp add: m_def)
    from floorlog_bounds [OF m, of 2] have b: "2 ^ (k - 1) \<le> m" "m < 2 ^ k"
      by (simp_all add: k_def)
    have e: "expo x = - int k" using False by (simp add: expo_def bitlen_def k_def m_def c_def)
    from b(2) have "int m < 2 ^ k" by (metis of_nat_less_iff of_nat_numeral of_nat_power)
    then have "c \<le> 2 ^ k" using c by (simp add: m_def)
    then have "(of_int c :: rat) \<le> 2 ^ k" by (metis of_int_le_iff of_int_numeral of_int_power)
    moreover have "1 / x \<le> of_int c" by (simp add: c_def)
    ultimately have "1 / x \<le> 2 ^ k" by (rule order_trans [rotated])
    then have "1 / 2 ^ k \<le> x" using assms by (simp add: field_simps)
    then show ?thesis by (simp add: e power_int_minus_divide)
  qed
  show "x < 2 powi (expo x + 1)"
  proof (cases "1 \<le> x")
    case True
    define m where "m = nat \<lfloor>x\<rfloor>"
    define k where "k = floorlog 2 m"
    from True have m: "0 < m" by (simp add: m_def)
    from floorlog_bounds [OF m, of 2] have b: "2 ^ (k - 1) \<le> m" "m < 2 ^ k"
      by (simp_all add: k_def)
    have e: "expo x + 1 = int k" using True by (simp add: expo_def bitlen_def k_def m_def)
    from b(2) have "int m + 1 \<le> 2 ^ k" by (metis of_nat_less_iff of_nat_numeral of_nat_power zless_imp_add1_zle)
    then have "\<lfloor>x\<rfloor> + 1 \<le> 2 ^ k" using True by (simp add: m_def)
    then have "(of_int (\<lfloor>x\<rfloor> + 1) :: rat) \<le> 2 ^ k" by (metis of_int_le_iff of_int_numeral of_int_power)
    moreover have "x < of_int (\<lfloor>x\<rfloor> + 1)" using floor_correct [of x] by simp
    ultimately have "x < 2 ^ k" by (rule order_less_le_trans [rotated -1])
    then show ?thesis by (simp add: e)
  next
    case False
    define c where "c = \<lceil>1 / x\<rceil>"
    define m where "m = nat (c - 1)"
    define k where "k = floorlog 2 m"
    from False assms have y: "1 < 1 / x" by simp
    then have c: "2 \<le> c" unfolding c_def by (simp add: le_ceiling_iff)
    then have m: "0 < m" by (simp add: m_def)
    from floorlog_bounds [OF m, of 2] have b: "2 ^ (k - 1) \<le> m" "m < 2 ^ k"
      by (simp_all add: k_def)
    from b(2) m have k: "1 \<le> k" by (cases k) auto
    have e: "expo x + 1 = - int (k - 1)" using False k by (simp add: expo_def bitlen_def k_def m_def c_def)
    from b(1) have "2 ^ (k - 1) \<le> int m" by (metis of_nat_le_iff of_nat_numeral of_nat_power)
    then have "2 ^ (k - 1) \<le> c - 1" using c by (simp add: m_def)
    then have "(2::rat) ^ (k - 1) \<le> of_int (c - 1)" by (metis of_int_le_iff of_int_numeral of_int_power)
    moreover have "of_int (c - 1) < 1 / x" unfolding c_def by (simp add: ceiling_correct)
    ultimately have "2 ^ (k - 1) < 1 / x" by (rule order_le_less_trans)
    then have "x < 1 / 2 ^ (k - 1)" using assms by (simp add: field_simps)
    then show ?thesis by (simp add: e power_int_minus_divide)
  qed
qed


lemma rne_of_int [simp]: "rne (of_int n) = n"
  by (simp add: rne_def)

lemma rne_ge: "of_int k \<le> y \<Longrightarrow> k \<le> rne y"
proof -
  assume "of_int k \<le> y"
  then have "k \<le> \<lfloor>y\<rfloor>" by (simp add: le_floor_iff)
  moreover have "\<lfloor>y\<rfloor> \<le> rne y" by (simp add: rne_def Let_def)
  ultimately show ?thesis by simp
qed

lemma rne_le: "y \<le> of_int k \<Longrightarrow> rne y \<le> k"
proof (cases "y = of_int \<lfloor>y\<rfloor>")
  case True
  assume "y \<le> of_int k"
  then have "\<lfloor>y\<rfloor> \<le> k" by (metis True of_int_le_iff)
  moreover have "rne y = \<lfloor>y\<rfloor>" by (metis True rne_of_int)
  ultimately show ?thesis by simp
next
  case False
  assume le: "y \<le> of_int k"
  have "of_int \<lfloor>y\<rfloor> < y" using False by (metis of_int_floor_le order_less_le)
  with le have "(of_int \<lfloor>y\<rfloor> :: rat) < of_int k" by simp
  then have "\<lfloor>y\<rfloor> < k" by simp
  moreover have "rne y \<le> \<lfloor>y\<rfloor> + 1" by (simp add: rne_def Let_def)
  ultimately show ?thesis by simp
qed

lemma quantum_ge: "- 1074 \<le> quantum x"
  by (simp add: quantum_def)

lemma quantum_ge_expo: "expo x - 52 \<le> quantum x"
  by (simp add: quantum_def)

lemma pow2_pos [simp]: "0 < (2::rat) powi q"
  by simp

lemma rndp_exact_lt:
  assumes n: "0 < n" "n < 2 ^ 53" and q: "- 1074 \<le> q"
  shows "rndp (of_int n * 2 powi q) = of_int n * 2 powi q"
proof -
  define z :: rat where "z = of_int n * 2 powi q"
  have zpos: "0 < z" using n by (simp add: z_def)
  have "(of_int n :: rat) < of_int (2 ^ 53)" using n(2) by (simp only: of_int_less_iff)
  then have "(of_int n :: rat) < 2 ^ 53" by simp
  then have "z < 2 ^ 53 * 2 powi q"
    unfolding z_def by (intro mult_strict_right_mono) simp_all
  also have "\<dots> = 2 powi (q + 53)" by (simp add: power_int_add)
  finally have zlt: "z < 2 powi (q + 53)" .
  have e: "expo z < q + 53"
  proof (rule ccontr)
    assume "\<not> expo z < q + 53"
    then have "(2::rat) powi (q + 53) \<le> 2 powi expo z"
      by (intro power_int_increasing) simp_all
    also have "\<dots> \<le> z" by (rule expo_bounds(1) [OF zpos])
    finally show False using zlt by simp
  qed
  define Q where "Q = quantum z"
  from e have qq: "Q \<le> q" using q by (simp add: Q_def quantum_def)
  define d where "d = nat (q - Q)"
  have "(2::rat) powi q = 2 powi (Q + int d)" using qq by (simp add: d_def)
  also have "\<dots> = 2 powi Q * 2 ^ d" by (simp add: power_int_add)
  finally have pq: "(2::rat) powi q = 2 powi Q * 2 ^ d" .
  have zq: "z = of_int (n * 2 ^ d) * 2 powi Q"
    by (simp add: z_def pq)
  have "z / 2 powi Q = of_int (n * 2 ^ d)"
    by (subst zq) simp
  then have "rne (z / 2 powi Q) = n * 2 ^ d" by (simp only: rne_of_int)
  then have "rndp z = of_int (n * 2 ^ d) * 2 powi Q" by (simp add: rndp_def Q_def)
  also have "\<dots> = z" by (rule zq [symmetric])
  finally show ?thesis by (simp add: z_def)
qed

lemma rndp_exact:
  assumes n: "0 < n" "n \<le> 2 ^ 53" and q: "- 1074 \<le> q"
  shows "rndp (of_int n * 2 powi q) = of_int n * 2 powi q"
proof (cases "n = 2 ^ 53")
  case False
  with n have "n < 2 ^ 53" by simp
  from rndp_exact_lt [OF n(1) this q] show ?thesis .
next
  case True
  have "(of_int n :: rat) * 2 powi q = of_int (2 ^ 52) * 2 powi (q + 1)"
    by (simp add: True power_int_add)
  moreover have "rndp (of_int (2 ^ 52) * 2 powi (q + 1)) = of_int (2 ^ 52) * 2 powi (q + 1)"
    using q by (intro rndp_exact_lt) simp_all
  ultimately show ?thesis by simp
qed

lemma rnd_minus: "rnd (- x) = - rnd x"
  by (simp add: rnd_def)

lemma rnd_representable:
  assumes "representable z"
  shows "rnd z = z"
proof -
  from assms obtain n q where z: "z = of_int n * 2 powi q" and n: "\<bar>n\<bar> \<le> 2 ^ 53"
    and q: "- 1074 \<le> q"
    unfolding representable_def by blast
  consider "n = 0" | "0 < n" | "n < 0" by linarith
  then show ?thesis
  proof cases
    case 1
    then show ?thesis by (simp add: z rnd_def)
  next
    case 2
    with n have "n \<le> 2 ^ 53" by simp
    have "0 < z" using 2 by (simp add: z)
    with rndp_exact [OF 2 \<open>n \<le> 2 ^ 53\<close> q] show ?thesis by (simp add: z rnd_def)
  next
    case 3
    with n have m: "0 < - n" "- n \<le> 2 ^ 53" by simp_all
    have neg: "z < 0" using 3 by (simp add: z mult_neg_pos)
    have "- z = of_int (- n) * 2 powi q" by (simp add: z)
    with rndp_exact [OF m q] have "rndp (- z) = - z" by simp
    with neg show ?thesis by (simp add: rnd_def)
  qed
qed

lemma rndp_form:
  assumes "0 < x"
  shows "\<exists>n. rndp x = of_int n * 2 powi quantum x \<and> 0 \<le> n \<and> n \<le> 2 ^ 53"
proof -
  define y where "y = x / 2 powi quantum x"
  have y0: "0 \<le> y" using assms by (simp add: y_def)
  have "x < 2 powi (expo x + 1)" by (rule expo_bounds(2) [OF assms])
  also have "\<dots> \<le> 2 powi (quantum x + 53)"
    using quantum_ge_expo [of x] by (intro power_int_increasing) simp_all
  also have "\<dots> = 2 ^ 53 * 2 powi quantum x" by (simp add: power_int_add)
  finally have "y < 2 ^ 53" by (simp add: y_def field_simps)
  then have "y \<le> of_int (2 ^ 53)" by simp
  then have hi: "rne y \<le> 2 ^ 53" by (rule rne_le)
  from y0 have "of_int 0 \<le> y" by simp
  then have lo: "0 \<le> rne y" by (rule rne_ge)
  show ?thesis using lo hi by (intro exI [of _ "rne y"]) (simp add: rndp_def y_def)
qed

lemma representable_rnd: "representable (rnd x)"
proof -
  have pos: "representable (rndp x)" if "0 < x" for x
  proof -
    from rndp_form [OF that] obtain n where
      "rndp x = of_int n * 2 powi quantum x" "0 \<le> n" "n \<le> 2 ^ 53" by blast
    then show ?thesis
      unfolding representable_def using quantum_ge [of x]
      by (intro exI [of _ n] exI [of _ "quantum x"]) simp
  qed
  have neg: "representable (- z)" if "representable z" for z
  proof -
    from that obtain n q where "z = of_int n * 2 powi q" "\<bar>n\<bar> \<le> 2 ^ 53" "- 1074 \<le> q"
      unfolding representable_def by blast
    then show ?thesis
      unfolding representable_def by (intro exI [of _ "- n"] exI [of _ q]) simp
  qed
  have zero: "representable 0"
    unfolding representable_def by (intro exI [of _ 0] exI [of _ 0]) simp
  show ?thesis
    using pos [of x] pos [of "- x"] neg zero by (auto simp: rnd_def)
qed

lemma rnd_idem [simp]: "rnd (rnd x) = rnd x"
  by (rule rnd_representable [OF representable_rnd])

lemma rnd_0 [simp]: "rnd 0 = 0"
  by (simp add: rnd_def)

lemma rnd_nonneg: "0 \<le> x \<Longrightarrow> 0 \<le> rnd x"
proof -
  assume x: "0 \<le> x"
  show ?thesis
  proof (cases "x = 0")
    case True
    then show ?thesis by simp
  next
    case False
    with x have p: "0 < x" by simp
    from rndp_form [OF p] obtain n where "rndp x = of_int n * 2 powi quantum x" "0 \<le> n" by blast
    then have "0 \<le> rndp x" by simp
    with p show ?thesis by (simp add: rnd_def)
  qed
qed

lemma rnd_nonpos: "x \<le> 0 \<Longrightarrow> rnd x \<le> 0"
  using rnd_nonneg [of "- x"] by (simp add: rnd_minus)

lemma rnd_of_int: "\<bar>n\<bar> \<le> 2 ^ 53 \<Longrightarrow> rnd (of_int n) = of_int n"
proof -
  assume "\<bar>n\<bar> \<le> 2 ^ 53"
  then have "representable (of_int n)"
    unfolding representable_def by (intro exI [of _ n] exI [of _ 0]) simp
  then show ?thesis by (rule rnd_representable)
qed


lemma tiny_pos: "0 < tiny"
  by (simp only: tiny_def) (rule zero_less_power_int, simp)

lemma rnd_multiple: "\<exists>k::int. rnd x = of_int k * tiny"
proof -
  from representable_rnd [of x] obtain n q where
    x: "rnd x = of_int n * 2 powi q" and q: "- 1074 \<le> q"
    unfolding representable_def by blast
  define d where "d = nat (q + 1074)"
  have "q = int d + (- 1074)" using q by (simp add: d_def)
  then have "(2::rat) powi q = 2 powi (int d + (- 1074))" by (rule arg_cong)
  also have "\<dots> = 2 powi int d * 2 powi (- 1074)" by (rule power_int_add) simp
  also have "\<dots> = 2 ^ d * tiny" by (simp only: power_int_of_nat tiny_def)
  finally have "rnd x = of_int n * (2 ^ d * tiny)" by (simp only: x)
  also have "\<dots> = of_int (n * 2 ^ d) * tiny" by simp
  finally show ?thesis by blast
qed

lemma quantum_le:
  assumes "tiny \<le> x"
  shows "2 powi quantum x \<le> x"
proof -
  have pos: "0 < x" using tiny_pos assms by (rule less_le_trans)
  have "(2::rat) powi (expo x - 52) \<le> 2 powi expo x"
    by (intro power_int_increasing) simp_all
  also have "\<dots> \<le> x" by (rule expo_bounds(1) [OF pos])
  finally have 1: "(2::rat) powi (expo x - 52) \<le> x" .
  show ?thesis
  proof (cases "expo x - 52 \<le> - 1074")
    case True
    then have "quantum x = - 1074" by (simp add: quantum_def)
    then show ?thesis using assms by (simp only: tiny_def)
  next
    case False
    then have "quantum x = expo x - 52" by (simp add: quantum_def)
    then show ?thesis using 1 by simp
  qed
qed

lemma rnd_pos:
  assumes "tiny \<le> x"
  shows "0 < rnd x"
proof -
  have pos: "0 < x" using tiny_pos assms by (rule less_le_trans)
  have "of_int 1 \<le> x / 2 powi quantum x"
    using quantum_le [OF assms] by (simp add: field_simps)
  then have "1 \<le> rne (x / 2 powi quantum x)" by (rule rne_ge)
  then have "0 < rndp x" by (simp add: rndp_def)
  with pos show ?thesis by (simp add: rnd_def)
qed

lemma rnd_diff_pos:
  assumes a: "rnd a = a" and b: "rnd b = b" and lt: "a < b"
  shows "0 < rnd (b - a)"
proof -
  from rnd_multiple [of a] a obtain ka :: int where ka: "a = of_int ka * tiny" by auto
  from rnd_multiple [of b] b obtain kb :: int where kb: "b = of_int kb * tiny" by auto
  from lt tiny_pos have "(of_int ka :: rat) < of_int kb" by (simp add: ka kb)
  then have "ka < kb" by simp
  then have "1 \<le> kb - ka" by simp
  then have "(of_int 1 :: rat) \<le> of_int (kb - ka)" by (simp only: of_int_le_iff)
  then have "1 * tiny \<le> (of_int (kb - ka) :: rat) * tiny"
    using tiny_pos by (intro mult_right_mono) simp_all
  also have "\<dots> = b - a" by (simp add: ka kb algebra_simps)
  finally show ?thesis by (intro rnd_pos) simp
qed

lemma rnd_numeral: "numeral k \<le> (2 ^ 53 :: int) \<Longrightarrow> rnd (numeral k) = numeral k"
  using rnd_of_int [of "numeral k"] by simp

lemma rnd_1 [simp]: "rnd 1 = 1"
  using rnd_of_int [of 1] by simp

lemma valOf_dbl [simp, code abstract]: "valOf (dbl x) = rnd x"
  by (simp add: dbl_def Abs_double_inverse)

lemma rnd_valOf [simp]: "rnd (valOf a) = valOf a"
  using valOf [of a] by simp

lemma dbl_valOf [simp]: "dbl (valOf a) = a"
  by (simp add: dbl_def valOf_inverse)

lemma valOf_0 [simp]: "valOf 0 = 0"
  by (simp add: zero_double_def)

lemma double_eq_iff: "a = b \<longleftrightarrow> valOf a = valOf b"
  by (simp add: valOf_inject)

lemma dbl_eq_iff: "dbl x = dbl y \<longleftrightarrow> rnd x = rnd y"
  by (simp add: double_eq_iff)

lemma add_0_double [simp]: "a + 0 = a" "0 + a = a" "a - 0 = a"
  for a :: double
  by (simp_all add: plus_double_def minus_double_def)

lemma diff_pos_double: "a < b \<Longrightarrow> 0 < b - a" for a b :: double
  by (simp add: less_double_def minus_double_def rnd_diff_pos)

lemma diff_nonneg_double: "a \<le> b \<Longrightarrow> 0 \<le> b - a" for a b :: double
  by (simp add: less_eq_double_def minus_double_def rnd_nonneg)

lemma diff_nonpos_double: "b \<le> a \<Longrightarrow> b - a \<le> 0" for a b :: double
  by (simp add: less_eq_double_def minus_double_def rnd_nonpos)

lemma diff_le_0_iff_double: "b - a \<le> 0 \<longleftrightarrow> b \<le> a" for a b :: double
  using diff_pos_double [of a b] diff_nonpos_double [of b a] by (auto simp: not_le [symmetric])

lemma diff_pos_iff_double: "0 < b - a \<longleftrightarrow> a < b" for a b :: double
  using diff_le_0_iff_double [of b a] by (auto simp: not_le [symmetric])

section \<open>Fiscal calendar\<close>

lemma getPaymentKey_getMonthYear:
  "getPaymentKey cy ny mid i = mkKey mid (fst (getMonthYear cy ny i)) (snd (getMonthYear cy ny i))"
  by (simp add: getPaymentKey_def getMonthYear_def Let_def)

lemma getMonthYear_inj_on: "inj_on (getMonthYear cy ny) {0..<12}"
proof (rule inj_onI)
  fix i j :: nat
  assume bounds: "i \<in> {0..<12}" "j \<in> {0..<12}"
    and eq: "getMonthYear cy ny i = getMonthYear cy ny j"
  from eq have "fst (getMonthYear cy ny i) = fst (getMonthYear cy ny j)" by simp
  with bounds show "i = j"
    by (simp add: getMonthYear_def Let_def split: if_splits)
qed

lemma getMonthYear_image: "getMonthYear cy ny ` {0..<12} = fiscalWindow cy ny"
proof (rule set_eqI, rule iffI)
  fix p
  assume "p \<in> getMonthYear cy ny ` {0..<12}"
  then obtain i where i: "i < 12" and p: "p = getMonthYear cy ny i" by auto
  show "p \<in> fiscalWindow cy ny"
  proof (cases "i < 6")
    case True
    then have "p = (int i + 7, cy)" by (simp add: p getMonthYear_def)
    moreover from True have "int i + 7 \<in> {7..12}" by simp
    ultimately show ?thesis unfolding fiscalWindow_def by blast
  next
    case False
    then have "p = (int i - 5, ny)" by (simp add: p getMonthYear_def)
    moreover from False i have "int i - 5 \<in> {1..6}" by simp
    ultimately show ?thesis unfolding fiscalWindow_def by blast
  qed
next
  fix p
  assume "p \<in> fiscalWindow cy ny"
  then consider m where "p = (m, cy)" "7 \<le> m" "m \<le> 12" | m where "p = (m, ny)" "1 \<le> m" "m \<le> 6"
    unfolding fiscalWindow_def by auto
  then show "p \<in> getMonthYear cy ny ` {0..<12}"
  proof cases
    case 1
    then have "p = getMonthYear cy ny (nat (m - 7))" "nat (m - 7) \<in> {0..<12}"
      by (auto simp: getMonthYear_def)
    then show ?thesis by blast
  next
    case 2
    then have "p = getMonthYear cy ny (nat (m + 5))" "nat (m + 5) \<in> {0..<12}"
      by (auto simp: getMonthYear_def)
    then show ?thesis by blast
  qed
qed

text \<open>
  C6. For every fiscal index \<open>i\<close> in 0..11 the mapping returns \<open>(i + 7, currentYear)\<close> when
  \<open>i\<close> is in 0..5 and \<open>(i - 5, nextYear)\<close> when \<open>i\<close> is in 6..11; on 0..11 it is a bijection
  onto the twelve (month, year) pairs of the fiscal window, index 0 goes to
  \<open>(7, currentYear)\<close> and index 11 to \<open>(6, nextYear)\<close>. The key of a slot is built from the
  same pair.
\<close>

theorem getMonthYear_fiscal_bijection:
  "(\<forall>i \<in> {0..<6}. getMonthYear cy ny i = (int i + 7, cy)) \<and>
   (\<forall>i \<in> {6..<12}. getMonthYear cy ny i = (int i - 5, ny)) \<and>
   bij_betw (getMonthYear cy ny) {0..<12} (fiscalWindow cy ny) \<and>
   card (fiscalWindow cy ny) = 12 \<and>
   getMonthYear cy ny 0 = (7, cy) \<and>
   getMonthYear cy ny 11 = (6, ny) \<and>
   (\<forall>i \<in> {0..<12}. getPaymentKey cy ny mid i =
        mkKey mid (fst (getMonthYear cy ny i)) (snd (getMonthYear cy ny i)))"
proof -
  have bij: "bij_betw (getMonthYear cy ny) {0..<12} (fiscalWindow cy ny)"
    unfolding bij_betw_def using getMonthYear_inj_on getMonthYear_image by blast
  have card: "card (fiscalWindow cy ny) = 12"
    using bij_betw_same_card [OF bij] by simp
  show ?thesis
    using bij card by (simp add: getMonthYear_def getPaymentKey_getMonthYear)
qed

theorem getMonthYear_fiscal_bijection_witness:
  "getMonthYear 2025 2026 3 = (10, 2025) \<and> getMonthYear 2025 2026 8 = (3, 2026) \<and>
   getPaymentKey 2025 2026 ''m1'' 8 = ''m1-3-2026'' \<and>
   (10, 2025) \<in> fiscalWindow 2025 2026"
proof -
  have a: "(3::nat) \<in> {0..<6}" and b: "(8::nat) \<in> {6..<12}" and c: "(8::nat) \<in> {0..<12}"
    by simp_all
  note inst = getMonthYear_fiscal_bijection [of 2025 2026 "''m1''"]
  from inst a have 1: "getMonthYear 2025 2026 3 = (10, 2025)" by fastforce
  from inst b have 2: "getMonthYear 2025 2026 8 = (3, 2026)" by fastforce
  from inst c have "getPaymentKey 2025 2026 ''m1'' 8 =
      mkKey ''m1'' (fst (getMonthYear 2025 2026 8)) (snd (getMonthYear 2025 2026 8))"
    by blast
  then have 3: "getPaymentKey 2025 2026 ''m1'' 8 = ''m1-3-2026''"
    by (simp add: 2 mkKey_def numStr_def natStr.simps)
  from inst have "bij_betw (getMonthYear 2025 2026) {0..<12} (fiscalWindow 2025 2026)" by blast
  then have "getMonthYear 2025 2026 3 \<in> fiscalWindow 2025 2026"
    using bij_betwE [of "getMonthYear 2025 2026" "{0..<12}" "fiscalWindow 2025 2026"] by simp
  with 1 have 4: "(10, 2025) \<in> fiscalWindow 2025 2026" by simp
  from 1 2 3 4 show ?thesis by blast
qed

section \<open>Outstanding balance and accumulated total\<close>







section \<open>The distribution refines the three passes of the specification\<close>

lemma length_allFM: "length (allFM cy ny mid) = 12"
  by (simp add: allFM_def)

lemma allFM_nth:
  "i < 12 \<Longrightarrow> allFM cy ny mid ! i =
     \<lparr>fm_monthIndex = i, fm_month = fst (getMonthYear cy ny i), fm_year = snd (getMonthYear cy ny i),
      fm_key = mkKey mid (fst (getMonthYear cy ny i)) (snd (getMonthYear cy ny i))\<rparr>"
  unfolding allFM_def by (simp add: case_prod_unfold Let_def del: upt_Suc)

lemma amountOr0_spec: "amountOr0 ex = spec_existingAmount ex"
  by (simp add: amountOr0_def spec_existingAmount_def split: option.splits)

lemma skip_spec: "(skipSlot F ex \<or> F - amountOr0 ex \<le> 0) = spec_skip F ex"
  by (auto simp: skipSlot_def amountOr0_def spec_skip_def spec_isBenefit_def spec_existingAmount_def
      diff_le_0_iff_double split: option.splits)

text \<open>
  With a positive fee an absent slot is never skipped, so reading "has amount at least
  the fee" as a condition on an existing entry only gives the same test.
\<close>

lemma spec_skip_entry_reading:
  assumes "0 < F"
  shows "spec_skip F slot =
         (case slot of None \<Rightarrow> False
          | Some e \<Rightarrow> payment_type e = Some ''pronto_pago_benefit'' \<or> F \<le> amount e)"
  using assms
  by (auto simp: spec_skip_def spec_isBenefit_def spec_existingAmount_def not_le split: option.splits)

lemma fold_spec_scan_zero: "fold (spec_scan cy ny ps mid F) xs (0, pl) = (0, pl)"
  by (induction xs) (simp_all add: spec_scan_def)

lemma distributeLoop_step:
  assumes "i < bound" "0 < rem" "i < 12"
  shows "distributeLoop (allFM cy ny mid) ps F bound i rem ups =
         (if spec_skip F (spec_slot cy ny ps mid i)
          then distributeLoop (allFM cy ny mid) ps F bound (Suc i) rem ups
          else distributeLoop (allFM cy ny mid) ps F bound (Suc i)
                 (rem - min rem (F - spec_existingAmount (spec_slot cy ny ps mid i)))
                 (ups @ [\<lparr>u_key = mkKey mid (fst (getMonthYear cy ny i)) (snd (getMonthYear cy ny i)),
                           u_month = fst (getMonthYear cy ny i), u_year = snd (getMonthYear cy ny i),
                           u_newAmt = spec_existingAmount (spec_slot cy ny ps mid i)
                                      + min rem (F - spec_existingAmount (spec_slot cy ny ps mid i)),
                           u_existing = spec_slot cy ny ps mid i\<rparr>]))"
  using assms skip_spec [of F "spec_slot cy ny ps mid i"]
  by (subst distributeLoop.simps)
     (auto simp: length_allFM allFM_nth Let_def amountOr0_spec spec_slot_def)

lemma distributeLoop_refines:
  assumes "bound \<le> 12" "0 \<le> rem"
  shows "\<exists>r ups'. distributeLoop (allFM cy ny mid) ps F bound i rem ups = Inr (r, ups') \<and>
            fold (spec_scan cy ny ps mid F) [i..<bound] (rem, map planOf ups) = (r, map planOf ups') \<and>
            0 \<le> r"
  using assms
proof (induction "bound - i" arbitrary: i rem ups)
  case 0
  then show ?case by (subst distributeLoop.simps) simp
next
  case (Suc n)
  then have lt: "i < bound" "i < 12" and n: "n = bound - Suc i" by simp_all
  have upt: "[i..<bound] = i # [Suc i..<bound]" using lt by (simp add: upt_conv_Cons)
  show ?case
  proof (cases "rem = 0")
    case True
    then show ?thesis
      by (subst distributeLoop.simps) (simp add: fold_spec_scan_zero)
  next
    case nz: False
    with Suc.prems have pos: "0 < rem" by (simp add: less_le)
    show ?thesis
    proof (cases "spec_skip F (spec_slot cy ny ps mid i)")
      case True
      from Suc.hyps(1) [OF n Suc.prems(1) Suc.prems(2), of ups] True pos lt nz
      show ?thesis
        by (simp add: distributeLoop_step upt spec_scan_def Let_def)
    next
      case sk: False
      let ?d = "F - spec_existingAmount (spec_slot cy ny ps mid i)"
      have r': "0 \<le> rem - min rem ?d" by (rule diff_nonneg_double) simp
      let ?u = "\<lparr>u_key = mkKey mid (fst (getMonthYear cy ny i)) (snd (getMonthYear cy ny i)),
                 u_month = fst (getMonthYear cy ny i), u_year = snd (getMonthYear cy ny i),
                 u_newAmt = spec_existingAmount (spec_slot cy ny ps mid i) + min rem ?d,
                 u_existing = spec_slot cy ny ps mid i\<rparr>"
      from Suc.hyps(1) [OF n Suc.prems(1) r', of "ups @ [?u]"] sk pos lt nz
      show ?thesis
        by (simp add: distributeLoop_step upt spec_scan_def Let_def planOf_def)
    qed
  qed
qed


lemma handleCellClick_fields:
  "sp_memberId (handleCellClick cy ny ps member i) = m_id member"
  "sp_monthIndex (handleCellClick cy ny ps member i) = i"
  "sp_month (handleCellClick cy ny ps member i) = fst (getMonthYear cy ny i)"
  "sp_year (handleCellClick cy ny ps member i) = snd (getMonthYear cy ny i)"
  "sp_payment (handleCellClick cy ny ps member i) = spec_slot cy ny ps (m_id member) i"
  by (simp_all add: handleCellClick_def Let_def case_prod_unfold spec_slot_def
        getPaymentKey_getMonthYear)

lemma computeUpdates_refines:
  assumes sel: "sel = handleCellClick cy ny ps member target"
    and target: "target < 12" and L: "0 \<le> L"
  shows "\<exists>ups. computeUpdates cy ny ps F sel L = Inr ups \<and>
           map planOf ups = spec_allocate cy ny ps (m_id member) F target L"
proof -
  let ?mid = "m_id member"
  let ?fms = "allFM cy ny ?mid"
  from target have t': "target \<le> 12" by simp
  from distributeLoop_refines [OF t' L, of cy ny ?mid ps F 0 "[]"]
  obtain r1 ups1 where
    b: "distributeLoop ?fms ps F target 0 L [] = Inr (r1, ups1)"
    and b': "spec_backfill cy ny ps ?mid F target L = (r1, map planOf ups1)"
    and r1: "0 \<le> r1"
    by (auto simp: spec_backfill_def)
  define r2 where "r2 = (if r1 > 0 then r1 - min r1 F else r1)"
  define ups2 where "ups2 = (if r1 > 0
      then ups1 @ [\<lparr>u_key = fm_key (?fms ! target), u_month = fst (getMonthYear cy ny target),
                      u_year = snd (getMonthYear cy ny target), u_newAmt = min r1 F,
                      u_existing = None\<rparr>]
      else ups1)"
  have s: "selectedStep ?fms F sel r1 ups1 = Inr (r2, ups2)"
    using target by (simp add: selectedStep_def sel handleCellClick_fields length_allFM
        r2_def ups2_def Let_def)
  have s': "spec_target cy ny F target (r1, map planOf ups1) = (r2, map planOf ups2)"
    by (simp add: spec_target_def r2_def ups2_def Let_def planOf_def)
  have r2: "0 \<le> r2" using r1 by (simp add: r2_def diff_nonneg_double)
  from distributeLoop_refines [OF order_refl r2, of cy ny ?mid ps F "Suc target" ups2]
  obtain r3 ups3 where
    o: "distributeLoop ?fms ps F 12 (Suc target) r2 ups2 = Inr (r3, ups3)"
    and o': "fold (spec_scan cy ny ps ?mid F) [Suc target..<12] (r2, map planOf ups2)
               = (r3, map planOf ups3)"
    by auto
  have o'': "spec_overflow cy ny ps ?mid F target (r2, map planOf ups2) = (r3, map planOf ups3)"
  proof (cases "r2 > 0")
    case True
    then show ?thesis by (simp add: spec_overflow_def o')
  next
    case False
    with r2 have "r2 = 0" by simp
    with o' show ?thesis by (simp add: spec_overflow_def fold_spec_scan_zero)
  qed
  have "computeUpdates cy ny ps F sel L = Inr ups3"
    by (simp add: computeUpdates_def Let_def sel handleCellClick_fields b o
        s [unfolded sel handleCellClick_fields])
  moreover have "map planOf ups3 = spec_allocate cy ny ps ?mid F target L"
    by (simp add: spec_allocate_def b' s' o'')
  ultimately show ?thesis by blast
qed


text \<open>
  At a fee of 19.99 and a lump sum of 59.97 on an empty ledger, July selected: after three
  full fees the remainder is not 0 but \<open>2^-47\<close>, about \<open>7.1e-15\<close>, and October receives it.
  The roundings involved:
\<close>

lemma rnd_residue_example:
  "rnd (1999 / 100) = 5626684784446013 / 281474976710656"
  "rnd (5626684784446013 / 281474976710656) = 5626684784446013 / 281474976710656"
  "rnd (5997 / 100) = 2110006794167255 / 35184372088832"
  "rnd (2110006794167255 / 35184372088832) = 2110006794167255 / 35184372088832"
  "rnd (11253369568892027 / 281474976710656) = 2813342392223007 / 70368744177664"
  "rnd (2813342392223007 / 70368744177664) = 2813342392223007 / 70368744177664"
  "rnd (5626684784446015 / 281474976710656) = 5626684784446015 / 281474976710656"
  "rnd (1 / 140737488355328) = 1 / 140737488355328"
  by code_simp+

lemma residue_example_plan:
  "spec_allocate 2025 2026 [] ''m1'' (dbl (1999 / 100)) 0 (dbl (5997 / 100))
      = [(7, 2025, dbl (1999 / 100), None), (8, 2025, dbl (1999 / 100), None),
         (9, 2025, dbl (1999 / 100), None), (10, 2025, dbl (1 / 140737488355328), None)]"
  by (simp add: spec_allocate_def spec_overflow_def spec_target_def spec_backfill_def upt_rec
      spec_scan_def spec_slot_def spec_skip_def spec_isBenefit_def spec_existingAmount_def
      getMonthYear_def lookup_def Let_def min_def
      plus_double_def minus_double_def less_double_def less_eq_double_def zero_double_def
      dbl_eq_iff rnd_residue_example)

lemma residue_example_pos: "(0::double) < dbl (5997 / 100)"
  by (simp add: less_double_def zero_double_def rnd_residue_example)


section \<open>Conservation\<close>

lemma delta_planOf:
  "delta u = (case planOf u of (m, y, n, e) \<Rightarrow>
                valOf n - (case e of None \<Rightarrow> 0 | Some p \<Rightarrow> valOf (amount p)))"
  by (simp add: delta_def planOf_def)

text \<open>
  At a fee of 3.97 with 1.95 paid for July, a payment of 5.99 on the empty cell of August:
  the deficit of July is \<open>3.97 - 1.95\<close>, in doubles 2.0200000000000005, and July ends at
  \<open>1.95 + 2.0200000000000005\<close>, in doubles 3.9700000000000006; August receives the
  remainder 3.9699999999999998. The roundings involved:
\<close>

lemma rnd_topup_example:
  "rnd (397 / 100) = 8939645260330435 / 2251799813685248"
  "rnd (8939645260330435 / 2251799813685248) = 8939645260330435 / 2251799813685248"
  "rnd (599 / 100) = 3372070220993659 / 562949953421312"
  "rnd (3372070220993659 / 562949953421312) = 3372070220993659 / 562949953421312"
  "rnd (39 / 20) = 8782019273372467 / 4503599627370496"
  "rnd (8782019273372467 / 4503599627370496) = 8782019273372467 / 4503599627370496"
  "rnd (9097271247288403 / 4503599627370496) = 2274317811822101 / 1125899906842624"
  "rnd (2274317811822101 / 1125899906842624) = 2274317811822101 / 1125899906842624"
  "rnd (4469822630165217 / 1125899906842624) = 4469822630165217 / 1125899906842624"
  "rnd (17879290520660871 / 4503599627370496) = 2234911315082609 / 562949953421312"
  "rnd (2234911315082609 / 562949953421312) = 2234911315082609 / 562949953421312"
  "rnd (19850000000000003 / 5000000000000000) = 2234911315082609 / 562949953421312"
  "rnd (19849999999999999 / 5000000000000000) = 4469822630165217 / 1125899906842624"
  by code_simp+

lemma topup_example_plan:
  "spec_allocate 2025 2026 exTopUp ''m1'' (dbl (397 / 100)) 1 (dbl (599 / 100))
      = [(7, 2025, dbl (19850000000000003 / 5000000000000000), Some (exPartial\<lparr>amount := dbl (195 / 100)\<rparr>)),
         (8, 2025, dbl (19849999999999999 / 5000000000000000), None)]"
  by (simp add: spec_allocate_def spec_overflow_def spec_target_def spec_backfill_def upt_rec
      spec_scan_def spec_slot_def spec_skip_def spec_isBenefit_def spec_existingAmount_def
      getMonthYear_def mkKey_def numStr_def natStr.simps lookup_def Let_def min_def
      exTopUp_def exPartial_def
      plus_double_def minus_double_def less_double_def less_eq_double_def zero_double_def
      dbl_eq_iff rnd_topup_example)

text \<open>
  C2. The sum of the per-slot deltas is not \<open>min(lumpSum, total deficit)\<close>. At a fee of
  19.99, a lump sum of 59.97 and an empty ledger with July selected, the deltas are three
  times the fee and \<open>2^-47\<close> for October, and their sum exceeds the lump sum by \<open>2^-48\<close>. At
  a fee of 3.97 with 1.95 paid for July and 5.99 paid on the empty cell of August, July
  ends above the fee, August below it, and the sum of the deltas exceeds the lump sum by
  \<open>2^-52\<close>. In both cases the total deficit is larger than the lump sum.
\<close>

theorem computeUpdates_conservation_rounding:
  "(\<exists>ups. computeUpdates 2025 2026 [] (dbl (1999 / 100)) (handleCellClick 2025 2026 [] exMember 0)
             (dbl (5997 / 100)) = Inr ups \<and>
          map delta ups = [5626684784446013 / 281474976710656, 5626684784446013 / 281474976710656,
                           5626684784446013 / 281474976710656, 1 / 140737488355328] \<and>
          sum_list (map delta ups)
            = min (valOf (dbl (5997 / 100))) (spec_totalDeficit 2025 2026 [] ''m1'' (dbl (1999 / 100)))
              + 1 / 281474976710656) \<and>
   (\<exists>ups. computeUpdates 2025 2026 exTopUp (dbl (397 / 100))
             (handleCellClick 2025 2026 exTopUp exMember 1) (dbl (599 / 100)) = Inr ups \<and>
          map u_newAmt ups = [dbl (19850000000000003 / 5000000000000000), dbl (19849999999999999 / 5000000000000000)] \<and>
          dbl (397 / 100) < u_newAmt (ups ! 0) \<and>
          u_newAmt (ups ! 1) < dbl (397 / 100) \<and>
          sum_list (map delta ups)
            = min (valOf (dbl (599 / 100))) (spec_totalDeficit 2025 2026 exTopUp ''m1'' (dbl (397 / 100)))
              + 1 / 4503599627370496)"
proof -
  have t0: "(0::nat) < 12" and t1: "(1::nat) < 12" by simp_all
  have m: "m_id exMember = ''m1''" by (simp add: exMember_def)
  have la: "(0::double) \<le> dbl (5997 / 100)"
    using residue_example_pos by (rule less_imp_le)
  have lb: "(0::double) \<le> dbl (599 / 100)"
    by (simp add: less_eq_double_def zero_double_def rnd_topup_example)
  from computeUpdates_refines [OF refl t0 la, where cy = 2025 and ny = 2026 and ps = "[]"
      and member = exMember and F = "dbl (1999 / 100)"]
  obtain upsA where
    ca: "computeUpdates 2025 2026 [] (dbl (1999 / 100)) (handleCellClick 2025 2026 [] exMember 0)
           (dbl (5997 / 100)) = Inr upsA"
    and pa: "map planOf upsA = spec_allocate 2025 2026 [] (m_id exMember) (dbl (1999 / 100)) 0 (dbl (5997 / 100))"
    by blast
  from pa have pa': "map planOf upsA =
      [(7, 2025, dbl (1999 / 100), None), (8, 2025, dbl (1999 / 100), None),
       (9, 2025, dbl (1999 / 100), None), (10, 2025, dbl (1 / 140737488355328), None)]"
    by (simp only: m residue_example_plan)
  have "map delta upsA = map (\<lambda>(m, y, n, e). valOf n - (case e of None \<Rightarrow> 0 | Some p \<Rightarrow> valOf (amount p)))
                          (map planOf upsA)"
    by (simp add: delta_planOf)
  then have da: "map delta upsA = [5626684784446013 / 281474976710656, 5626684784446013 / 281474976710656,
                           5626684784446013 / 281474976710656, 1 / 140737488355328]"
    by (simp add: pa' rnd_residue_example)
  have ta: "spec_totalDeficit 2025 2026 [] ''m1'' (dbl (1999 / 100)) = 12 * (5626684784446013 / 281474976710656)"
    by (simp add: spec_totalDeficit_def upt_rec spec_deficit_def spec_skip_def spec_isBenefit_def
        spec_existingAmount_def spec_slot_def lookup_def less_eq_double_def zero_double_def
        rnd_residue_example)
  have sa: "sum_list (map delta upsA)
            = min (valOf (dbl (5997 / 100))) (spec_totalDeficit 2025 2026 [] ''m1'' (dbl (1999 / 100)))
              + 1 / 281474976710656"
    by (simp add: da ta rnd_residue_example)
  from computeUpdates_refines [OF refl t1 lb, where cy = 2025 and ny = 2026 and ps = exTopUp
      and member = exMember and F = "dbl (397 / 100)"]
  obtain upsB where
    cb: "computeUpdates 2025 2026 exTopUp (dbl (397 / 100))
           (handleCellClick 2025 2026 exTopUp exMember 1) (dbl (599 / 100)) = Inr upsB"
    and pb: "map planOf upsB = spec_allocate 2025 2026 exTopUp (m_id exMember) (dbl (397 / 100)) 1 (dbl (599 / 100))"
    by blast
  from pb have pb': "map planOf upsB =
      [(7, 2025, dbl (19850000000000003 / 5000000000000000), Some (exPartial\<lparr>amount := dbl (195 / 100)\<rparr>)),
       (8, 2025, dbl (19849999999999999 / 5000000000000000), None)]"
    by (simp only: m topup_example_plan)
  have "map u_newAmt upsB = map (\<lambda>(m, y, n, e). n) (map planOf upsB)"
    by (simp add: planOf_def)
  then have nb: "map u_newAmt upsB = [dbl (19850000000000003 / 5000000000000000), dbl (19849999999999999 / 5000000000000000)]"
    by (simp add: pb')
  from nb have "length (map u_newAmt upsB) = 2" by simp
  then have lenb: "length upsB = 2" by simp
  have "u_newAmt (upsB ! 0) = map u_newAmt upsB ! 0" using lenb by simp
  then have n0: "u_newAmt (upsB ! 0) = dbl (19850000000000003 / 5000000000000000)" by (simp add: nb)
  have "u_newAmt (upsB ! 1) = map u_newAmt upsB ! 1" using lenb by simp
  then have n1: "u_newAmt (upsB ! 1) = dbl (19849999999999999 / 5000000000000000)" by (simp add: nb)
  have gb: "dbl (397 / 100) < u_newAmt (upsB ! 0)"
    unfolding n0 by (simp add: less_double_def rnd_topup_example)
  have hb: "u_newAmt (upsB ! 1) < dbl (397 / 100)"
    unfolding n1 by (simp add: less_double_def rnd_topup_example)
  have "map delta upsB = map (\<lambda>(m, y, n, e). valOf n - (case e of None \<Rightarrow> 0 | Some p \<Rightarrow> valOf (amount p)))
                          (map planOf upsB)"
    by (simp add: delta_planOf)
  then have db: "map delta upsB = [9097271247288405 / 4503599627370496, 4469822630165217 / 1125899906842624]"
    by (simp add: pb' rnd_topup_example)
  have tb: "spec_totalDeficit 2025 2026 exTopUp ''m1'' (dbl (397 / 100)) = 205769466974557973 / 4503599627370496"
    by (simp add: spec_totalDeficit_def upt_rec spec_deficit_def spec_skip_def spec_isBenefit_def
        spec_existingAmount_def spec_slot_def getMonthYear_def mkKey_def numStr_def natStr.simps
        lookup_def exTopUp_def exPartial_def less_eq_double_def zero_double_def
        rnd_topup_example)
  have sb: "sum_list (map delta upsB)
            = min (valOf (dbl (599 / 100))) (spec_totalDeficit 2025 2026 exTopUp ''m1'' (dbl (397 / 100)))
              + 1 / 4503599627370496"
    by (simp add: db tb rnd_topup_example)
  from ca da sa have A: "\<exists>ups. computeUpdates 2025 2026 [] (dbl (1999 / 100)) (handleCellClick 2025 2026 [] exMember 0)
             (dbl (5997 / 100)) = Inr ups \<and>
          map delta ups = [5626684784446013 / 281474976710656, 5626684784446013 / 281474976710656,
                           5626684784446013 / 281474976710656, 1 / 140737488355328] \<and>
          sum_list (map delta ups)
            = min (valOf (dbl (5997 / 100))) (spec_totalDeficit 2025 2026 [] ''m1'' (dbl (1999 / 100)))
              + 1 / 281474976710656"
    by (intro exI [of _ upsA] conjI)
  from cb nb gb hb sb have B: "\<exists>ups. computeUpdates 2025 2026 exTopUp (dbl (397 / 100))
             (handleCellClick 2025 2026 exTopUp exMember 1) (dbl (599 / 100)) = Inr ups \<and>
          map u_newAmt ups = [dbl (19850000000000003 / 5000000000000000), dbl (19849999999999999 / 5000000000000000)] \<and>
          dbl (397 / 100) < u_newAmt (ups ! 0) \<and>
          u_newAmt (ups ! 1) < dbl (397 / 100) \<and>
          sum_list (map delta ups)
            = min (valOf (dbl (599 / 100))) (spec_totalDeficit 2025 2026 exTopUp ''m1'' (dbl (397 / 100)))
              + 1 / 4503599627370496"
    by (intro exI [of _ upsB] conjI)
  from A B show ?thesis by (rule conjI)
qed

section \<open>The preview agrees with the save operation\<close>

lemma previewOldest_step:
  assumes "i < bound" "0 < rem"
  shows "previewOldest cy ny ps mid F bound i rem aff =
         (if spec_skip F (spec_slot cy ny ps mid i)
          then previewOldest cy ny ps mid F bound (Suc i) rem aff
          else previewOldest cy ny ps mid F bound (Suc i)
                 (rem - min rem (F - spec_existingAmount (spec_slot cy ny ps mid i)))
                 (aff @ [Completar (fst (getMonthYear cy ny i)) (snd (getMonthYear cy ny i))
                           (min rem (F - spec_existingAmount (spec_slot cy ny ps mid i)))]))"
  using assms skip_spec [of F "spec_slot cy ny ps mid i"]
  by (subst previewOldest.simps)
     (auto simp: Let_def amountOr0_spec spec_slot_def)

lemma previewOverflow_step:
  assumes "i < 12" "0 < rem"
  shows "previewOverflow cy ny ps mid F i rem aff =
         (if spec_skip F (spec_slot cy ny ps mid i)
          then previewOverflow cy ny ps mid F (Suc i) rem aff
          else previewOverflow cy ny ps mid F (Suc i)
                 (rem - min rem (F - spec_existingAmount (spec_slot cy ny ps mid i)))
                 (aff @ [Excedente (fst (getMonthYear cy ny i)) (snd (getMonthYear cy ny i))
                           (spec_existingAmount (spec_slot cy ny ps mid i)
                            + min rem (F - spec_existingAmount (spec_slot cy ny ps mid i)))]))"
  using assms skip_spec [of F "spec_slot cy ny ps mid i"]
  by (subst previewOverflow.simps)
     (auto simp: Let_def amountOr0_spec spec_slot_def)

lemma previewOldest_simulates:
  assumes "bound \<le> 12"
  shows "\<exists>r sts. distributeLoop (allFM cy ny mid) ps F bound i rem (map (updateOf mid) steps)
              = Inr (r, map (updateOf mid) (steps @ sts)) \<and>
            previewOldest cy ny ps mid F bound i rem (map lineOf steps)
              = (r, map lineOf (steps @ sts))"
  using assms
proof (induction "bound - i" arbitrary: i rem steps)
  case 0
  then show ?case
    by (subst distributeLoop.simps, subst previewOldest.simps) (simp add: exI [of _ "[]"])
next
  case (Suc n)
  then have lt: "i < bound" "i < 12" and n: "n = bound - Suc i" by simp_all
  show ?case
  proof (cases "0 < rem")
    case False
    then show ?thesis
      by (subst distributeLoop.simps, subst previewOldest.simps) (simp add: exI [of _ "[]"])
  next
    case pos: True
    show ?thesis
    proof (cases "spec_skip F (spec_slot cy ny ps mid i)")
      case True
      from Suc.hyps(1) [OF n Suc.prems(1), of rem steps] True pos lt
      show ?thesis
        by (simp add: distributeLoop_step previewOldest_step)
    next
      case sk: False
      let ?slot = "spec_slot cy ny ps mid i"
      let ?a = "min rem (F - spec_existingAmount ?slot)"
      let ?s = "(Oldest, fst (getMonthYear cy ny i), snd (getMonthYear cy ny i), ?slot, ?a)"
      from Suc.hyps(1) [OF n Suc.prems(1), of "rem - ?a" "steps @ [?s]"]
      obtain r sts where
        d: "distributeLoop (allFM cy ny mid) ps F bound (Suc i) (rem - ?a)
              (map (updateOf mid) (steps @ [?s])) = Inr (r, map (updateOf mid) ((steps @ [?s]) @ sts))"
        and p: "previewOldest cy ny ps mid F bound (Suc i) (rem - ?a) (map lineOf (steps @ [?s]))
              = (r, map lineOf ((steps @ [?s]) @ sts))"
        by blast
      from d p sk pos lt show ?thesis
        by (intro exI [of _ r] exI [of _ "?s # sts"])
           (simp add: distributeLoop_step previewOldest_step amountOr0_spec)
    qed
  qed
qed

lemma previewOverflow_simulates:
  "\<exists>r sts. distributeLoop (allFM cy ny mid) ps F 12 i rem (map (updateOf mid) steps)
              = Inr (r, map (updateOf mid) (steps @ sts)) \<and>
           previewOverflow cy ny ps mid F i rem (map lineOf steps)
              = (r, map lineOf (steps @ sts))"
proof (induction "12 - i" arbitrary: i rem steps)
  case 0
  then show ?case
    by (subst distributeLoop.simps, subst previewOverflow.simps) (simp add: exI [of _ "[]"])
next
  case (Suc n)
  then have lt: "i < 12" and n: "n = 12 - Suc i" by simp_all
  show ?case
  proof (cases "0 < rem")
    case False
    then show ?thesis
      by (subst distributeLoop.simps, subst previewOverflow.simps) (simp add: exI [of _ "[]"])
  next
    case pos: True
    show ?thesis
    proof (cases "spec_skip F (spec_slot cy ny ps mid i)")
      case True
      from Suc.hyps(1) [OF n, of rem steps] True pos lt
      show ?thesis
        by (simp add: distributeLoop_step previewOverflow_step)
    next
      case sk: False
      let ?slot = "spec_slot cy ny ps mid i"
      let ?a = "min rem (F - spec_existingAmount ?slot)"
      let ?s = "(Overflow, fst (getMonthYear cy ny i), snd (getMonthYear cy ny i), ?slot, ?a)"
      from Suc.hyps(1) [OF n, of "rem - ?a" "steps @ [?s]"]
      obtain r sts where
        d: "distributeLoop (allFM cy ny mid) ps F 12 (Suc i) (rem - ?a)
              (map (updateOf mid) (steps @ [?s])) = Inr (r, map (updateOf mid) ((steps @ [?s]) @ sts))"
        and p: "previewOverflow cy ny ps mid F (Suc i) (rem - ?a) (map lineOf (steps @ [?s]))
              = (r, map lineOf ((steps @ [?s]) @ sts))"
        by blast
      from d p sk pos lt show ?thesis
        by (intro exI [of _ r] exI [of _ "?s # sts"])
           (simp add: distributeLoop_step previewOverflow_step amountOr0_spec)
    qed
  qed
qed

text \<open>
  C10. For every ledger snapshot, positive lump sum and empty target slot, the preview of
  the payment dialog and the save operation distribute alike: there is one sequence of
  steps (slot, entry found there, amount applied) of which the preview shows the lines and
  the save operation pushes the updates. A line of a month before the selected one shows
  the amount applied, the update stores the existing amount plus that amount; a line of a
  later month shows that sum. The preview is shown only when more than one slot is affected.
\<close>

theorem distributionInfo_agrees_with_save:
  assumes sel: "sel = handleCellClick cy ny ps member target"
    and target: "target < 12"
    and empty: "sp_payment sel = None"
    and L: "0 < L"
  shows "\<exists>steps. computeUpdates cy ny ps F sel L = Inr (map (updateOf (m_id member)) steps) \<and>
           distributionAffected cy ny ps F sel L = map lineOf steps \<and>
           distributionInfo cy ny ps F (Some sel) (Some L)
             = (if length steps > 1 then Some (map lineOf steps) else None)"
proof -
  let ?mid = "m_id member"
  let ?fms = "allFM cy ny ?mid"
  let ?m = "fst (getMonthYear cy ny target)"
  let ?y = "snd (getMonthYear cy ny target)"
  from target have t': "target \<le> 12" by simp
  from previewOldest_simulates [OF t', of cy ny ?mid ps F 0 L "[]"]
  obtain r1 st1 where
    b: "distributeLoop ?fms ps F target 0 L [] = Inr (r1, map (updateOf ?mid) st1)"
    and pb: "previewOldest cy ny ps ?mid F target 0 L [] = (r1, map lineOf st1)"
    by auto
  define r2 where "r2 = (if r1 > 0 then r1 - min r1 F else r1)"
  define st2 where "st2 = (if r1 > 0 then st1 @ [(Selected, ?m, ?y, None, min r1 F)] else st1)"
  have s: "selectedStep ?fms F sel r1 (map (updateOf ?mid) st1) = Inr (r2, map (updateOf ?mid) st2)"
    using target by (simp add: selectedStep_def sel handleCellClick_fields length_allFM allFM_nth
        r2_def st2_def Let_def)
  from previewOverflow_simulates [of cy ny ?mid ps F "Suc target" r2 st2]
  obtain r3 st3 where
    o: "distributeLoop ?fms ps F 12 (Suc target) r2 (map (updateOf ?mid) st2)
          = Inr (r3, map (updateOf ?mid) (st2 @ st3))"
    and po: "previewOverflow cy ny ps ?mid F (Suc target) r2 (map lineOf st2)
          = (r3, map lineOf (st2 @ st3))"
    by auto
  have comp: "computeUpdates cy ny ps F sel L = Inr (map (updateOf ?mid) (st2 @ st3))"
    by (simp add: computeUpdates_def Let_def sel handleCellClick_fields b o
        s [unfolded sel handleCellClick_fields])
  have aff: "distributionAffected cy ny ps F sel L = map lineOf (st2 @ st3)"
    using po
    by (auto simp: distributionAffected_def Let_def sel handleCellClick_fields pb
        r2_def st2_def)
  have pos: "\<not> L \<le> 0" using L by (simp add: not_le)
  have nz: "L \<noteq> 0" using L by auto
  have info: "distributionInfo cy ny ps F (Some sel) (Some L)
             = (if length (st2 @ st3) > 1 then Some (map lineOf (st2 @ st3)) else None)"
    using pos nz empty by (simp add: distributionInfo_def orZero_def Let_def aff)
  from comp aff info show ?thesis by (intro exI [of _ "st2 @ st3"] conjI)
qed

text \<open>
  At a fee of 3.97 with 1.95 paid for July, a payment of 10 on the empty cell of August:
  the preview shows \<open>+2.0200000000000005\<close> for July, the fee for August and September and
  0.03999999999999959 for October, and the save operation stores 3.9700000000000006 for
  July and the amounts shown for the other three months. The roundings involved:
\<close>

lemma rnd_preview_example:
  "rnd (397 / 100) = 8939645260330435 / 2251799813685248"
  "rnd (8939645260330435 / 2251799813685248) = 8939645260330435 / 2251799813685248"
  "rnd (10) = 10"
  "rnd (39 / 20) = 8782019273372467 / 4503599627370496"
  "rnd (8782019273372467 / 4503599627370496) = 8782019273372467 / 4503599627370496"
  "rnd (9097271247288403 / 4503599627370496) = 2274317811822101 / 1125899906842624"
  "rnd (2274317811822101 / 1125899906842624) = 2274317811822101 / 1125899906842624"
  "rnd (8984681256604139 / 1125899906842624) = 8984681256604139 / 1125899906842624"
  "rnd (17879290520660871 / 4503599627370496) = 2234911315082609 / 562949953421312"
  "rnd (2234911315082609 / 562949953421312) = 2234911315082609 / 562949953421312"
  "rnd (9029717252877843 / 2251799813685248) = 2257429313219461 / 562949953421312"
  "rnd (2257429313219461 / 562949953421312) = 2257429313219461 / 562949953421312"
  "rnd (90071992547409 / 2251799813685248) = 90071992547409 / 2251799813685248"
  "rnd (4040000000000001 / 2000000000000000) = 2274317811822101 / 1125899906842624"
  "rnd (19850000000000003 / 5000000000000000) = 2234911315082609 / 562949953421312"
  "rnd (3999999999999959 / 100000000000000000) = 90071992547409 / 2251799813685248"
  by code_simp+

theorem distributionInfo_agrees_with_save_witness:
  "computeUpdates 2025 2026 exTopUp (dbl (397 / 100)) (handleCellClick 2025 2026 exTopUp exMember 1)
      (dbl 10)
   = Inr [\<lparr>u_key = ''m1-7-2025'', u_month = 7, u_year = 2025,
            u_newAmt = dbl (19850000000000003 / 5000000000000000),
            u_existing = Some (exPartial\<lparr>amount := dbl (195 / 100)\<rparr>)\<rparr>,
          \<lparr>u_key = ''m1-8-2025'', u_month = 8, u_year = 2025, u_newAmt = dbl (397 / 100),
            u_existing = None\<rparr>,
          \<lparr>u_key = ''m1-9-2025'', u_month = 9, u_year = 2025, u_newAmt = dbl (397 / 100),
            u_existing = None\<rparr>,
          \<lparr>u_key = ''m1-10-2025'', u_month = 10, u_year = 2025,
            u_newAmt = dbl (3999999999999959 / 100000000000000000), u_existing = None\<rparr>] \<and>
   distributionInfo 2025 2026 exTopUp (dbl (397 / 100))
      (Some (handleCellClick 2025 2026 exTopUp exMember 1)) (Some (dbl 10))
   = Some [Completar 7 2025 (dbl (4040000000000001 / 2000000000000000)),
           Seleccionado 8 2025 (dbl (397 / 100)),
           Excedente 9 2025 (dbl (397 / 100)),
           Excedente 10 2025 (dbl (3999999999999959 / 100000000000000000))]"
proof -
  let ?sel = "handleCellClick 2025 2026 exTopUp exMember 1"
  have click: "?sel = \<lparr>sp_memberId = ''m1'', sp_memberName = ''A'', sp_monthIndex = 1,
                         sp_month = 8, sp_year = 2025, sp_payment = None\<rparr>"
    by (simp add: handleCellClick_def getPaymentKey_def getMonthYear_def mkKey_def numStr_def
        natStr.simps lookup_def exTopUp_def exMember_def)
  have empty: "sp_payment ?sel = None" unfolding click by simp
  have pos: "(0::double) < dbl 10"
    by (simp add: less_double_def zero_double_def rnd_preview_example)
  have t: "(1::nat) < 12" by simp
  have aff: "distributionAffected 2025 2026 exTopUp (dbl (397 / 100)) ?sel (dbl 10)
             = [Completar 7 2025 (dbl (4040000000000001 / 2000000000000000)),
                Seleccionado 8 2025 (dbl (397 / 100)),
                Excedente 9 2025 (dbl (397 / 100)),
                Excedente 10 2025 (dbl (3999999999999959 / 100000000000000000))]"
    unfolding click
    by (simp add: distributionAffected_def previewOldest.simps previewOverflow.simps
        skipSlot_def amountOr0_def getMonthYear_def mkKey_def numStr_def natStr.simps lookup_def
        exTopUp_def exPartial_def Let_def min_def
        plus_double_def minus_double_def less_double_def less_eq_double_def zero_double_def
        dbl_eq_iff rnd_preview_example)
  have cu: "computeUpdates 2025 2026 exTopUp (dbl (397 / 100)) ?sel (dbl 10)
   = Inr [\<lparr>u_key = ''m1-7-2025'', u_month = 7, u_year = 2025,
            u_newAmt = dbl (19850000000000003 / 5000000000000000),
            u_existing = Some (exPartial\<lparr>amount := dbl (195 / 100)\<rparr>)\<rparr>,
          \<lparr>u_key = ''m1-8-2025'', u_month = 8, u_year = 2025, u_newAmt = dbl (397 / 100),
            u_existing = None\<rparr>,
          \<lparr>u_key = ''m1-9-2025'', u_month = 9, u_year = 2025, u_newAmt = dbl (397 / 100),
            u_existing = None\<rparr>,
          \<lparr>u_key = ''m1-10-2025'', u_month = 10, u_year = 2025,
            u_newAmt = dbl (3999999999999959 / 100000000000000000), u_existing = None\<rparr>]"
    unfolding click
    by (simp add: computeUpdates_def distributeLoop.simps selectedStep_def allFM_def upt_rec
        skipSlot_def amountOr0_def getMonthYear_def mkKey_def numStr_def natStr.simps lookup_def
        exTopUp_def exPartial_def Let_def min_def
        plus_double_def minus_double_def less_double_def less_eq_double_def zero_double_def
        dbl_eq_iff rnd_preview_example)
  from distributionInfo_agrees_with_save [OF refl t empty pos, where F = "dbl (397 / 100)"]
  obtain steps where
    l: "distributionAffected 2025 2026 exTopUp (dbl (397 / 100)) ?sel (dbl 10) = map lineOf steps"
    and i: "distributionInfo 2025 2026 exTopUp (dbl (397 / 100)) (Some ?sel) (Some (dbl 10))
            = (if length steps > 1 then Some (map lineOf steps) else None)"
    by blast
  from l have "length steps = length (distributionAffected 2025 2026 exTopUp (dbl (397 / 100)) ?sel (dbl 10))"
    by simp
  then have "length steps = 4" by (simp only: aff) simp
  with i have "distributionInfo 2025 2026 exTopUp (dbl (397 / 100)) (Some ?sel) (Some (dbl 10))
            = Some (map lineOf steps)"
    by simp
  then have "distributionInfo 2025 2026 exTopUp (dbl (397 / 100)) (Some ?sel) (Some (dbl 10))
   = Some [Completar 7 2025 (dbl (4040000000000001 / 2000000000000000)),
           Seleccionado 8 2025 (dbl (397 / 100)),
           Excedente 9 2025 (dbl (397 / 100)),
           Excedente 10 2025 (dbl (3999999999999959 / 100000000000000000))]"
    by (simp only: l [symmetric] aff)
  with cu show ?thesis by (rule conjI)
qed

section \<open>Quick-pay\<close>

lemma currentYearPending_spec: "currentYearPending cy ny ps mid = spec_emptySlots cy ny ps mid"
  by (simp add: currentYearPending_def spec_emptySlots_def spec_slot_def Let_def)

lemma length_spec_emptySlots: "length (spec_emptySlots cy ny ps mid) \<le> 12"
  unfolding spec_emptySlots_def using length_filter_le [of _ "[0..<12]"] by simp

lemma quickPayRows_spec:
  "map (quickPayRow cy ny mid A date url gid ''pronto_pago'')
       (take (min (length (spec_emptySlots cy ny ps mid)) 11) (spec_emptySlots cy ny ps mid))
   @ (case (if length (spec_emptySlots cy ny ps mid) \<ge> 12
            then Some (spec_emptySlots cy ny ps mid ! 11) else None) of
        None \<Rightarrow> []
      | Some fm \<Rightarrow> [quickPayRow cy ny mid 0 date url gid ''pronto_pago_benefit'' fm])
   = spec_quickPayEntries cy ny ps mid A date url gid"
proof -
  have "take (min (length xs) 11) xs = take 11 xs" for xs :: "nat list"
    by (simp add: min_def)
  then show ?thesis
    by (simp add: spec_quickPayEntries_def Let_def quickPayRow_def fun_eq_iff)
qed

lemma handleQuickPay_valid:
  assumes A: "0 < A" and date: "date \<noteq> []" and up: "receipt \<noteq> Some UploadFails"
    and ne: "spec_emptySlots cy ny ps (qp_memberId sq) \<noteq> []"
  shows "\<exists>rest. handleQuickPay cy ny ps (Some sq) (Some A) date receipt gid insErr
           = fst (uploadIfChosen receipt ''quick-pay'' None) @
             StoreInsert (spec_quickPayEntries cy ny ps (qp_memberId sq) A date
                (case receipt of Some (UploadOk u) \<Rightarrow> Some u | _ \<Rightarrow> None) gid) # rest \<and>
           (\<forall>e \<in> set rest. \<not> isStoreCall e)"
proof -
  let ?url = "(case receipt of Some (UploadOk u) \<Rightarrow> Some u | _ \<Rightarrow> None)"
  have u: "snd (uploadIfChosen receipt ''quick-pay'' None) = Inr ?url"
    using up by (simp add: uploadIfChosen_def uploadReceipt_def split: option.splits Upload.splits)
  from A have A': "A \<noteq> 0" "\<not> A \<le> 0" by auto
  show ?thesis
    using A' date ne
    by (cases insErr)
       (simp_all add: handleQuickPay_def Let_def u currentYearPending_spec quickPayRows_spec)
qed

lemma spec_quickPayEntries_props:
  fixes cy ny ps mid A date url gid
  defines "rows \<equiv> spec_quickPayEntries cy ny ps mid A date url gid"
    and "n \<equiv> length (spec_emptySlots cy ny ps mid)"
  assumes A: "A \<noteq> 0"
  shows "length [r \<leftarrow> rows. i_payment_type r = ''pronto_pago'' \<and> i_amount r = A] = min n 11"
    and "length [r \<leftarrow> rows. i_payment_type r = ''pronto_pago_benefit'' \<and> i_amount r = 0]
           = (if 12 \<le> n then 1 else 0)"
    and "length rows = min n 11 + (if 12 \<le> n then 1 else 0)"
    and "\<forall>r \<in> set rows. i_quick_pay_group_id r = Some gid \<and> i_paid_at r = Some date \<and>
            i_receipt_url r = url \<and> i_member_id r = mid"
    and "\<forall>r \<in> set rows. \<exists>i<12. (i_month r, i_year r) = getMonthYear cy ny i \<and>
            spec_slot cy ny ps mid i = None"
proof -
  let ?E = "spec_emptySlots cy ny ps mid"
  have mem: "i < 12 \<and> spec_slot cy ny ps mid i = None" if "i \<in> set ?E" for i
    using that by (simp add: spec_emptySlots_def)
  have tk: "i \<in> set ?E" if "i \<in> set (take 11 ?E)" for i
    using that by (rule in_set_takeD)
  have nth: "?E ! 11 \<in> set ?E" if "12 \<le> n"
    using that by (simp add: n_def)
  show "length [r \<leftarrow> rows. i_payment_type r = ''pronto_pago'' \<and> i_amount r = A] = min n 11"
    by (simp add: rows_def n_def spec_quickPayEntries_def Let_def filter_map comp_def min.commute)
  show "length [r \<leftarrow> rows. i_payment_type r = ''pronto_pago_benefit'' \<and> i_amount r = 0]
           = (if 12 \<le> n then 1 else 0)"
    using A by (simp add: rows_def n_def spec_quickPayEntries_def Let_def filter_map comp_def)
  show "length rows = min n 11 + (if 12 \<le> n then 1 else 0)"
    by (simp add: rows_def n_def spec_quickPayEntries_def Let_def min.commute)
  show "\<forall>r \<in> set rows. i_quick_pay_group_id r = Some gid \<and> i_paid_at r = Some date \<and>
            i_receipt_url r = url \<and> i_member_id r = mid"
    by (auto simp: rows_def spec_quickPayEntries_def Let_def)
  show "\<forall>r \<in> set rows. \<exists>i<12. (i_month r, i_year r) = getMonthYear cy ny i \<and>
            spec_slot cy ny ps mid i = None"
  proof -
    have ex: "\<exists>j<12. getMonthYear cy ny i = getMonthYear cy ny j \<and> spec_slot cy ny ps mid j = None"
      if "i \<in> set ?E" for i
      using mem [OF that] by blast
    have a: "\<exists>j<12. getMonthYear cy ny i = getMonthYear cy ny j \<and> spec_slot cy ny ps mid j = None"
      if "i \<in> set (take 11 ?E)" for i
      using ex [OF tk [OF that]] .
    have b: "\<exists>j<12. getMonthYear cy ny (?E ! 11) = getMonthYear cy ny j \<and>
                spec_slot cy ny ps mid j = None"
      if "12 \<le> length ?E"
      using ex [OF nth] that by (simp add: n_def)
    show ?thesis
      using a b
      by (auto simp: rows_def n_def spec_quickPayEntries_def Let_def split: if_splits)
  qed
qed


lemma spec_emptySlots_all:
  assumes "\<forall>i<12. spec_slot cy ny ps mid i = None"
  shows "length (spec_emptySlots cy ny ps mid) = 12"
proof -
  have "spec_emptySlots cy ny ps mid = [0..<12]"
    unfolding spec_emptySlots_def using assms by (intro filter_True) simp
  then show ?thesis by simp
qed

text \<open>
  C3. For a member with \<open>n \<ge> 1\<close> empty fiscal slots and per-month amount \<open>A\<close> (a valid
  amount, a payment date, no failed upload), quick-pay sends one insert whose rows are the
  entries of the specification: \<open>min(n, 11)\<close> entries of type \<open>pronto_pago\<close> with amount
  \<open>A\<close> on the first empty slots in fiscal-month order, and one more entry of amount 0 and
  type \<open>pronto_pago_benefit\<close> on the twelfth empty slot exactly when \<open>n \<ge> 12\<close>. Every row
  sits on a slot that had no entry and all rows carry the same group identifier, payment
  date and receipt reference. For a member without entries these are eleven paid months
  and one free month.
\<close>

theorem handleQuickPay_creates_entries:
  assumes A: "0 < A" and date: "date \<noteq> []" and up: "receipt \<noteq> Some UploadFails"
    and n: "n = length (spec_emptySlots cy ny ps (qp_memberId sq))" and n1: "1 \<le> n"
  shows "\<exists>rows url rest.
           handleQuickPay cy ny ps (Some sq) (Some A) date receipt gid insErr
             = fst (uploadIfChosen receipt ''quick-pay'' None) @ StoreInsert rows # rest \<and>
           (\<forall>e \<in> set (fst (uploadIfChosen receipt ''quick-pay'' None) @ rest). \<not> isStoreCall e) \<and>
           rows = spec_quickPayEntries cy ny ps (qp_memberId sq) A date url gid \<and>
           length [r \<leftarrow> rows. i_payment_type r = ''pronto_pago'' \<and> i_amount r = A] = min n 11 \<and>
           length [r \<leftarrow> rows. i_payment_type r = ''pronto_pago_benefit'' \<and> i_amount r = 0]
             = (if 12 \<le> n then 1 else 0) \<and>
           length rows = min n 11 + (if 12 \<le> n then 1 else 0) \<and>
           (\<forall>r \<in> set rows. i_quick_pay_group_id r = Some gid \<and> i_paid_at r = Some date \<and>
               i_receipt_url r = url \<and> i_member_id r = qp_memberId sq) \<and>
           (\<forall>r \<in> set rows. \<exists>i<12. (i_month r, i_year r) = getMonthYear cy ny i \<and>
               spec_slot cy ny ps (qp_memberId sq) i = None) \<and>
           ((\<forall>i<12. spec_slot cy ny ps (qp_memberId sq) i = None) \<longrightarrow>
              length [r \<leftarrow> rows. i_payment_type r = ''pronto_pago'' \<and> i_amount r = A] = 11 \<and>
              length [r \<leftarrow> rows. i_payment_type r = ''pronto_pago_benefit'' \<and> i_amount r = 0] = 1 \<and>
              length rows = 12)"
proof -
  let ?mid = "qp_memberId sq"
  let ?url = "(case receipt of Some (UploadOk u) \<Rightarrow> Some u | _ \<Rightarrow> None)"
  let ?rows = "spec_quickPayEntries cy ny ps ?mid A date ?url gid"
  from n n1 have ne: "spec_emptySlots cy ny ps ?mid \<noteq> []" by auto
  from handleQuickPay_valid [OF A date up ne, of gid insErr]
  obtain rest where
    h: "handleQuickPay cy ny ps (Some sq) (Some A) date receipt gid insErr
          = fst (uploadIfChosen receipt ''quick-pay'' None) @ StoreInsert ?rows # rest"
    and r: "\<forall>e \<in> set rest. \<not> isStoreCall e"
    by blast
  have r': "\<forall>e \<in> set (fst (uploadIfChosen receipt ''quick-pay'' None) @ rest). \<not> isStoreCall e"
    using r by (auto simp: uploadIfChosen_def split: option.splits)
  from A have A0: "A \<noteq> 0" by auto
  note p = spec_quickPayEntries_props [OF A0, of cy ny ps ?mid date ?url gid, folded n]
  have full: "(\<forall>i<12. spec_slot cy ny ps ?mid i = None) \<longrightarrow>
              length [r \<leftarrow> ?rows. i_payment_type r = ''pronto_pago'' \<and> i_amount r = A] = 11 \<and>
              length [r \<leftarrow> ?rows. i_payment_type r = ''pronto_pago_benefit'' \<and> i_amount r = 0] = 1 \<and>
              length ?rows = 12"
  proof
    assume "\<forall>i<12. spec_slot cy ny ps ?mid i = None"
    then have "n = 12" unfolding n by (rule spec_emptySlots_all)
    with p(1,2,3) show "length [r \<leftarrow> ?rows. i_payment_type r = ''pronto_pago'' \<and> i_amount r = A] = 11 \<and>
              length [r \<leftarrow> ?rows. i_payment_type r = ''pronto_pago_benefit'' \<and> i_amount r = 0] = 1 \<and>
              length ?rows = 12"
      by simp
  qed
  show ?thesis
    using h r' p full by (intro exI [of _ ?rows] exI [of _ ?url] exI [of _ rest] conjI refl)
qed

theorem handleQuickPay_creates_entries_witness:
  "\<exists>rows rest.
      handleQuickPay 2025 2026 [] (Some (openQuickPay (dbl 50) exMember)) (Some (dbl 40)) ''2025-07-01'' None
          ''g'' None = StoreInsert rows # rest \<and>
      length [r \<leftarrow> rows. i_payment_type r = ''pronto_pago'' \<and> i_amount r = dbl 40] = 11 \<and>
      length [r \<leftarrow> rows. i_payment_type r = ''pronto_pago_benefit'' \<and> i_amount r = 0] = 1 \<and>
      length rows = 12 \<and>
      (\<forall>r \<in> set rows. i_quick_pay_group_id r = Some ''g'' \<and> i_paid_at r = Some ''2025-07-01'')"
proof -
  have A: "(0::double) < dbl 40"
    by (simp add: less_double_def zero_double_def rnd_numeral)
  have date: "''2025-07-01'' \<noteq> []"
    and up: "(None :: Upload option) \<noteq> Some UploadFails"
    by simp_all
  have all: "\<forall>i<12. spec_slot 2025 2026 [] (qp_memberId (openQuickPay (dbl 50) exMember)) i = None"
    by (simp add: spec_slot_def lookup_def)
  have n: "12 = length (spec_emptySlots 2025 2026 [] (qp_memberId (openQuickPay (dbl 50) exMember)))"
    using spec_emptySlots_all [OF all] by simp
  have n1: "(1::nat) \<le> 12" by simp
  from handleQuickPay_creates_entries [OF A date up n n1, of "''g''" None] all
  show ?thesis
    by (auto simp: uploadIfChosen_def)
qed


text \<open>
  C9. When all twelve fiscal months of the member already have entries, quick-pay makes no
  call to the store, whatever the other inputs are, and ends with a destructive toast;
  with valid inputs that toast is the one saying that all payments of the year are
  registered, preceded only by the upload of the receipt file if one was chosen.
\<close>

theorem handleQuickPay_no_empty_slots:
  assumes full: "\<forall>i<12. spec_slot cy ny ps (qp_memberId sq) i \<noteq> None"
  shows "(\<forall>e \<in> set (handleQuickPay cy ny ps (Some sq) amt date receipt gid insErr). \<not> isStoreCall e) \<and>
         handleQuickPay cy ny ps (Some sq) amt date receipt gid insErr \<noteq> [] \<and>
         (\<exists>t. last (handleQuickPay cy ny ps (Some sq) amt date receipt gid insErr) = ShowToast t \<and>
              destructive t) \<and>
         ((\<exists>a. amt = Some a \<and> 0 < a) \<and> date \<noteq> [] \<and> receipt \<noteq> Some UploadFails \<longrightarrow>
            handleQuickPay cy ny ps (Some sq) amt date receipt gid insErr
              = fst (uploadIfChosen receipt ''quick-pay'' None) @ [ShowToast TodosRegistrados])"
proof -
  have "spec_emptySlots cy ny ps (qp_memberId sq) = []"
    using full by (auto simp: spec_emptySlots_def filter_empty_conv)
  then have pend: "currentYearPending cy ny ps (qp_memberId sq) = []"
    by (simp add: currentYearPending_spec)
  show ?thesis
    by (auto simp: handleQuickPay_def pend uploadIfChosen_def uploadReceipt_def Let_def
        split: option.splits Upload.splits)
qed

lemma exFullLedger_full: "\<forall>i<12. spec_slot 2025 2026 exFullLedger ''m1'' i \<noteq> None"
proof -
  have "\<forall>i \<in> set [0..<12]. spec_slot 2025 2026 exFullLedger ''m1'' i \<noteq> None"
    by (simp add: upt_rec spec_slot_def lookup_def exFullLedger_def getPaymentKey_def
        getMonthYear_def mkKey_def numStr_def natStr.simps)
  then show ?thesis by simp
qed

theorem handleQuickPay_no_empty_slots_witness:
  "handleQuickPay 2025 2026 exFullLedger (Some (openQuickPay (dbl 50) exMember)) (Some (dbl 50)) ''2025-07-01''
      (Some (UploadOk ''url'')) ''g'' None
   = [UploadReceipt ''quick-pay'', ShowToast TodosRegistrados]"
proof -
  have m: "qp_memberId (openQuickPay (dbl 50) exMember) = ''m1''"
    by (simp add: openQuickPay_def exMember_def)
  have full: "\<forall>i<12. spec_slot 2025 2026 exFullLedger (qp_memberId (openQuickPay (dbl 50) exMember)) i \<noteq> None"
    unfolding m by (rule exFullLedger_full)
  have pos: "(0::double) < dbl 50"
    by (simp add: less_double_def zero_double_def rnd_numeral)
  from handleQuickPay_no_empty_slots [OF full, of "Some (dbl 50)" "''2025-07-01''" "Some (UploadOk ''url'')" "''g''" None]
  show ?thesis by (simp add: uploadIfChosen_def pos)
qed


section \<open>Advance payment\<close>

lemma handleAdvancePayment_general:
  assumes up: "ad_receiptFile data \<noteq> Some UploadFails"
  shows "\<exists>rows url note rest.
           handleAdvancePayment (Some sa) data gid insErr
             = fst (uploadIfChosen (ad_receiptFile data) ''advance-pay'' None) @ StoreInsert rows # rest \<and>
           (\<forall>e \<in> set (fst (uploadIfChosen (ad_receiptFile data) ''advance-pay'' None) @ rest).
               \<not> isStoreCall e) \<and>
           rows = map (\<lambda>(m, y).
                         \<lparr>i_member_id = ap_memberId sa, i_month = m, i_year = y,
                          i_amount = ap_memberMonthlyAmount sa,
                          i_paid_at = Some (ad_paymentDate data), i_receipt_url = url,
                          i_quick_pay_group_id = Some gid, i_payment_type = ''adelantado'',
                          i_notes = Some note\<rparr>) (ad_selectedMonths data) \<and>
           length rows = length (ad_selectedMonths data) \<and>
           (\<forall>r \<in> set rows. i_payment_type r \<noteq> ''pronto_pago_benefit'' \<and>
               i_amount r = ap_memberMonthlyAmount sa) \<and>
           (insErr = None \<longrightarrow>
              (\<exists>rest'. rest = SetAdvancePendingReceipt
                            \<lparr>r_totalAmount = ad_totalAmount data, r_amountPaid = ad_totalAmount data,
                             r_paymentDate = ad_paymentDate data, r_remaining = 0\<rparr> # rest'))"
proof -
  let ?url = "(case ad_receiptFile data of Some (UploadOk u) \<Rightarrow> Some u | _ \<Rightarrow> None)"
  let ?note = "''Pago registrado mediante Pago por Adelantado (''
                 @ numStr (int (length (ad_selectedMonths data))) @ '' meses).''"
  let ?rows = "map (\<lambda>(m, y).
                         \<lparr>i_member_id = ap_memberId sa, i_month = m, i_year = y,
                          i_amount = ap_memberMonthlyAmount sa,
                          i_paid_at = Some (ad_paymentDate data), i_receipt_url = ?url,
                          i_quick_pay_group_id = Some gid, i_payment_type = ''adelantado'',
                          i_notes = Some ?note\<rparr>) (ad_selectedMonths data)"
  have u: "snd (uploadIfChosen (ad_receiptFile data) ''advance-pay'' None) = Inr ?url"
    using up by (simp add: uploadIfChosen_def uploadReceipt_def split: option.splits Upload.splits)
  have nostore: "\<forall>e \<in> set (fst (uploadIfChosen (ad_receiptFile data) ''advance-pay'' None)).
               \<not> isStoreCall e"
    by (simp add: uploadIfChosen_def split: option.splits)
  have rows: "\<forall>r \<in> set ?rows. i_payment_type r \<noteq> ''pronto_pago_benefit'' \<and>
               i_amount r = ap_memberMonthlyAmount sa"
    by auto
  show ?thesis
  proof (cases insErr)
    case None
    let ?rest = "[SetAdvancePendingReceipt
                   \<lparr>r_totalAmount = ad_totalAmount data, r_amountPaid = ad_totalAmount data,
                    r_paymentDate = ad_paymentDate data, r_remaining = 0\<rparr>,
                  ShowToast (AdelantadoRegistrado (length ?rows)), LoadData]"
    have h: "handleAdvancePayment (Some sa) data gid insErr
             = fst (uploadIfChosen (ad_receiptFile data) ''advance-pay'' None) @ StoreInsert ?rows # ?rest"
      by (simp add: handleAdvancePayment_def Let_def u None)
    have ns: "\<forall>e \<in> set (fst (uploadIfChosen (ad_receiptFile data) ''advance-pay'' None) @ ?rest).
               \<not> isStoreCall e"
      using nostore by simp
    have pend: "insErr = None \<longrightarrow> (\<exists>rest'. ?rest = SetAdvancePendingReceipt
                            \<lparr>r_totalAmount = ad_totalAmount data, r_amountPaid = ad_totalAmount data,
                             r_paymentDate = ad_paymentDate data, r_remaining = 0\<rparr> # rest')"
      by simp
    have len: "length ?rows = length (ad_selectedMonths data)" by simp
    show ?thesis
      using h ns len rows pend
      by (intro exI [of _ ?rows] exI [of _ ?url] exI [of _ ?note] exI [of _ ?rest] conjI refl)
  next
    case (Some msg)
    let ?rest = "[ShowToast (ErrorToast (StoreError msg))]"
    have h: "handleAdvancePayment (Some sa) data gid insErr
             = fst (uploadIfChosen (ad_receiptFile data) ''advance-pay'' None) @ StoreInsert ?rows # ?rest"
      by (simp add: handleAdvancePayment_def Let_def u Some)
    have ns: "\<forall>e \<in> set (fst (uploadIfChosen (ad_receiptFile data) ''advance-pay'' None) @ ?rest).
               \<not> isStoreCall e"
      using nostore by simp
    have pend: "insErr = None \<longrightarrow> (\<exists>rest'. ?rest = SetAdvancePendingReceipt
                            \<lparr>r_totalAmount = ad_totalAmount data, r_amountPaid = ad_totalAmount data,
                             r_paymentDate = ad_paymentDate data, r_remaining = 0\<rparr> # rest')"
      using Some by simp
    have len: "length ?rows = length (ad_selectedMonths data)" by simp
    show ?thesis
      using h ns len rows pend
      by (intro exI [of _ ?rows] exI [of _ ?url] exI [of _ ?note] exI [of _ ?rest] conjI refl)
  qed
qed

text \<open>
  C5. For an advance-pay invocation with the selected (month, year) slots, the monthly fee
  \<open>F\<close>, a payment date and an optional receipt (whose upload does not fail), the handler
  sends one insert with exactly one row of type \<open>adelantado\<close> per selected slot, each
  with amount \<open>F\<close>, all with the same group identifier, date and receipt; no row is a
  benefit row. The receipt data reports the total the dialog passes in, which is
  \<open>F\<close> times the number of selected months.
\<close>

theorem handleAdvancePayment_entries:
  assumes up: "file \<noteq> Some UploadFails"
  shows "\<exists>rows url note rest.
           handleAdvancePayment (Some sa)
               (spec_advanceDialogSubmit (ap_memberMonthlyAmount sa) months date file) gid insErr
             = fst (uploadIfChosen file ''advance-pay'' None) @ StoreInsert rows # rest \<and>
           (\<forall>e \<in> set (fst (uploadIfChosen file ''advance-pay'' None) @ rest). \<not> isStoreCall e) \<and>
           rows = map (\<lambda>(m, y).
                         \<lparr>i_member_id = ap_memberId sa, i_month = m, i_year = y,
                          i_amount = ap_memberMonthlyAmount sa,
                          i_paid_at = Some date, i_receipt_url = url,
                          i_quick_pay_group_id = Some gid, i_payment_type = ''adelantado'',
                          i_notes = Some note\<rparr>) months \<and>
           length rows = length months \<and>
           (\<forall>r \<in> set rows. i_payment_type r \<noteq> ''pronto_pago_benefit'' \<and>
               i_amount r = ap_memberMonthlyAmount sa) \<and>
           (insErr = None \<longrightarrow>
              (\<exists>rest'. rest = SetAdvancePendingReceipt
                            \<lparr>r_totalAmount = ap_memberMonthlyAmount sa * lengthNum months,
                             r_amountPaid = ap_memberMonthlyAmount sa * lengthNum months,
                             r_paymentDate = date, r_remaining = 0\<rparr> # rest'))"
proof -
  let ?data = "spec_advanceDialogSubmit (ap_memberMonthlyAmount sa) months date file"
  have f: "ad_receiptFile ?data = file" "ad_selectedMonths ?data = months"
    "ad_paymentDate ?data = date"
    "ad_totalAmount ?data = ap_memberMonthlyAmount sa * lengthNum months"
    by (simp_all add: spec_advanceDialogSubmit_def)
  from up have "ad_receiptFile ?data \<noteq> Some UploadFails" by (simp add: f)
  from handleAdvancePayment_general [OF this, of sa gid insErr]
  show ?thesis by (simp only: f)
qed

theorem handleAdvancePayment_entries_witness:
  "\<exists>rows rest.
      handleAdvancePayment (Some (openAdvancePayment (dbl 50) exMember))
         (spec_advanceDialogSubmit (dbl 50) [(9, 2025), (10, 2025), (1, 2026)] ''2025-07-01'' None) ''g'' None
        = StoreInsert rows # SetAdvancePendingReceipt
             \<lparr>r_totalAmount = dbl 150, r_amountPaid = dbl 150, r_paymentDate = ''2025-07-01'',
              r_remaining = 0\<rparr> # rest \<and>
      map (\<lambda>r. (i_month r, i_year r, i_amount r, i_payment_type r, i_quick_pay_group_id r)) rows
        = [(9, 2025, dbl 50, ''adelantado'', Some ''g''), (10, 2025, dbl 50, ''adelantado'', Some ''g''),
           (1, 2026, dbl 50, ''adelantado'', Some ''g'')]"
proof -
  have up: "(None :: Upload option) \<noteq> Some UploadFails" by simp
  have m: "ap_memberMonthlyAmount (openAdvancePayment (dbl 50) exMember) = dbl 50"
    by (simp add: openAdvancePayment_def)
  have total: "dbl 50 * lengthNum [(9::int, 2025::int), (10, 2025), (1, 2026)] = dbl 150"
    by (simp add: times_double_def lengthNum_def dbl_eq_iff rnd_numeral)
  from handleAdvancePayment_entries [OF up, of "openAdvancePayment (dbl 50) exMember"
      "[(9, 2025), (10, 2025), (1, 2026)]" "''2025-07-01''" "''g''" None]
  show ?thesis
    unfolding m total by (auto simp: uploadIfChosen_def)
qed


section \<open>Editing an existing entry\<close>

lemma applyFields_frame:
  "id' (applyFields patch row) = id' row"
  "member_id (applyFields patch row) = member_id row"
  "month (applyFields patch row) = month row"
  "year (applyFields patch row) = year row"
  "status (applyFields patch row) = status row"
  "quick_pay_group_id (applyFields patch row) = quick_pay_group_id row"
  "created_at (applyFields patch row) = created_at row"
  "updated_at (applyFields patch row) = updated_at row"
  by (simp_all add: applyFields_def)

lemma storeUpdate_frame:
  "length (storeUpdate now rowId patch table) = length table"
  "j < length table \<Longrightarrow> id' (table ! j) \<noteq> rowId \<Longrightarrow> storeUpdate now rowId patch table ! j = table ! j"
  "j < length table \<Longrightarrow> id' (table ! j) = rowId \<Longrightarrow>
     storeUpdate now rowId patch table ! j = (applyFields patch (table ! j))\<lparr>updated_at := Some now\<rparr>"
  by (simp_all add: storeUpdate_def)

lemma editExisting_effects:
  "take 2 (fst (editExisting ps fee sys sel p a date url notesField r))
      = [SetPayments (AList.update (mkKey (sp_memberId sel) (sp_month sel) (sp_year sel))
            ((applyFields \<lparr>f_amount = a, f_paid_at = date, f_receipt_url = url,
                           f_payment_type = Some ''regular'', f_notes = orNull notesField\<rparr> p)
               \<lparr>member_id := sp_memberId sel, month := sp_month sel, year := sp_year sel\<rparr>) ps),
         StoreUpdate (id' p) \<lparr>f_amount = a, f_paid_at = date, f_receipt_url = url,
                           f_payment_type = Some ''regular'', f_notes = orNull notesField\<rparr>]"
  "\<forall>e \<in> set (drop 2 (fst (editExisting ps fee sys sel p a date url notesField r))).
      \<not> isStoreCall e \<and> (\<forall>np. e \<noteq> SetPayments np)"
  by (cases r; simp add: editExisting_def Let_def applyFields_def)+

text \<open>
  C4, as the code has it. When the clicked slot already has an entry, saving bypasses the
  distribution: the only store call is one update of that entry, by its id, which sets
  the amount, the payment date, the note and the receipt reference and also resets the
  payment type to \<open>regular\<close>. In the store only rows with that id change, and only in
  these columns and the \<open>updated_at\<close> stamp of the trigger; in the page state only the
  entry under the key of the slot is replaced, and no key is added.
\<close>

theorem handleSavePayment_edit_existing:
  assumes sel: "sel = handleCellClick cy ny ps member target"
    and p: "sp_payment sel = Some p"
  shows "\<exists>patch key.
      patch = \<lparr>f_amount = orZero (form_amount form), f_paid_at = orNull (form_paymentDate form),
               f_receipt_url = (case form_receiptFile form of
                                  Some (UploadOk u) \<Rightarrow> Some u
                                | _ \<Rightarrow> orNullOpt (receipt_url p)),
               f_payment_type = Some ''regular'', f_notes = orNull (form_notes form)\<rparr> \<and>
      key = getPaymentKey cy ny (m_id member) target \<and>
      (\<forall>e \<in> set (handleSavePayment cy ny ps fee sys (Some sel) form resp).
          isStoreCall e \<longrightarrow> e = StoreUpdate (id' p) patch) \<and>
      (form_receiptFile form \<noteq> Some UploadFails \<longrightarrow>
          length (filter isStoreCall (handleSavePayment cy ny ps fee sys (Some sel) form resp)) = 1) \<and>
      (\<forall>np. SetPayments np \<in> set (handleSavePayment cy ny ps fee sys (Some sel) form resp) \<longrightarrow>
          map fst np = map fst ps \<and>
          (\<forall>k. k \<noteq> key \<longrightarrow> lookup np k = lookup ps k) \<and>
          lookup np key = Some ((applyFields patch p)
             \<lparr>member_id := m_id member, month := fst (getMonthYear cy ny target),
               year := snd (getMonthYear cy ny target)\<rparr>)) \<and>
      (\<forall>now table. length (storeUpdate now (id' p) patch table) = length table \<and>
          (\<forall>j<length table.
              (id' (table ! j) \<noteq> id' p \<longrightarrow> storeUpdate now (id' p) patch table ! j = table ! j) \<and>
              (id' (table ! j) = id' p \<longrightarrow>
                 storeUpdate now (id' p) patch table ! j
                   = (applyFields patch (table ! j))\<lparr>updated_at := Some now\<rparr>))) \<and>
      (\<forall>row. id' (applyFields patch row) = id' row \<and>
             member_id (applyFields patch row) = member_id row \<and>
             month (applyFields patch row) = month row \<and>
             year (applyFields patch row) = year row \<and>
             status (applyFields patch row) = status row \<and>
             quick_pay_group_id (applyFields patch row) = quick_pay_group_id row \<and>
             created_at (applyFields patch row) = created_at row \<and>
             payment_type (applyFields patch row) = Some ''regular'')"
proof -
  let ?mid = "m_id member"
  let ?key = "getPaymentKey cy ny ?mid target"
  let ?url = "(case form_receiptFile form of Some (UploadOk u) \<Rightarrow> Some u
               | _ \<Rightarrow> orNullOpt (receipt_url p))"
  let ?patch = "\<lparr>f_amount = orZero (form_amount form), f_paid_at = orNull (form_paymentDate form),
               f_receipt_url = ?url,
               f_payment_type = Some ''regular'', f_notes = orNull (form_notes form)\<rparr>"
  let ?effs = "handleSavePayment cy ny ps fee sys (Some sel) form resp"
  let ?new = "(applyFields ?patch p)
             \<lparr>member_id := ?mid, month := fst (getMonthYear cy ny target),
               year := snd (getMonthYear cy ny target)\<rparr>"
  let ?np = "AList.update ?key ?new ps"
  have flds: "sp_memberId sel = ?mid" "sp_month sel = fst (getMonthYear cy ny target)"
    "sp_year sel = snd (getMonthYear cy ny target)"
    by (simp_all add: sel handleCellClick_fields)
  have key: "mkKey (sp_memberId sel) (sp_month sel) (sp_year sel) = ?key"
    by (simp add: flds getPaymentKey_getMonthYear)
  have look: "lookup ps ?key = Some p"
    using p by (simp add: sel handleCellClick_fields spec_slot_def getPaymentKey_getMonthYear)
  then have dom: "?key \<in> fst ` set ps"
    by (metis lookup_def map_of_eq_None_iff option.distinct(1))
  have np: "map fst ?np = map fst ps \<and> (\<forall>k. k \<noteq> ?key \<longrightarrow> lookup ?np k = lookup ps k) \<and>
            lookup ?np ?key = Some ?new"
    using dom by (simp add: update_keys lookup_def update_conv')
  have okfact: "snd (uploadIfChosen (form_receiptFile form) ''monthly'' (orNullOpt (receipt_url p)))
              = Inr ?url" if "form_receiptFile form \<noteq> Some UploadFails"
    using that
    by (auto simp: uploadIfChosen_def uploadReceipt_def split: option.splits Upload.splits)
  have effs: "(\<forall>e \<in> set ?effs. isStoreCall e \<longrightarrow> e = StoreUpdate (id' p) ?patch) \<and>
      (form_receiptFile form \<noteq> Some UploadFails \<longrightarrow> length (filter isStoreCall ?effs) = 1) \<and>
      (\<forall>np. SetPayments np \<in> set ?effs \<longrightarrow> np = ?np)"
  proof (cases "form_receiptFile form = Some UploadFails")
    case True
    then show ?thesis
      by (simp add: handleSavePayment_def p uploadIfChosen_def uploadReceipt_def Let_def)
  next
    case False
    note ok = okfact [OF False]
    define body where "body = editExisting ps fee sys sel p (orZero (form_amount form))
                 (orNull (form_paymentDate form)) ?url (form_notes form) (resp 0)"
    define rest where "rest = drop 2 (fst body)"
    have "take 2 (fst body) = [SetPayments ?np, StoreUpdate (id' p) ?patch]"
      unfolding body_def
      by (simp only: editExisting_effects(1) flds getPaymentKey_getMonthYear [symmetric])
    then have e: "fst body = [SetPayments ?np, StoreUpdate (id' p) ?patch] @ rest"
      unfolding rest_def by (metis append_take_drop_id)
    have r: "\<forall>e \<in> set rest. \<not> isStoreCall e \<and> (\<forall>np. e \<noteq> SetPayments np)"
      unfolding rest_def body_def by (rule editExisting_effects(2))
    have up: "\<forall>e \<in> set (fst (uploadIfChosen (form_receiptFile form) ''monthly''
                 (orNullOpt (receipt_url p)))). \<not> isStoreCall e \<and> (\<forall>np. e \<noteq> SetPayments np)"
      by (simp add: uploadIfChosen_def split: option.splits)
    define tail where "tail = (case snd body of None \<Rightarrow> []
                               | Some err \<Rightarrow> [LoadData, ShowToast (ErrorToast err)])"
    have hs: "?effs = fst (uploadIfChosen (form_receiptFile form) ''monthly''
                 (orNullOpt (receipt_url p))) @ fst body @ tail"
      by (simp add: handleSavePayment_def p ok Let_def body_def tail_def split: option.splits)
    have t: "?effs = fst (uploadIfChosen (form_receiptFile form) ''monthly''
                 (orNullOpt (receipt_url p))) @ [SetPayments ?np, StoreUpdate (id' p) ?patch] @ rest
                 @ tail"
      unfolding hs using e by simp
    have t': "\<forall>e \<in> set tail. \<not> isStoreCall e \<and> (\<forall>np. e \<noteq> SetPayments np)"
      by (cases "snd body") (simp_all add: tail_def)
    have f: "filter isStoreCall (fst (uploadIfChosen (form_receiptFile form) ''monthly''
                 (orNullOpt (receipt_url p)))) = []" "filter isStoreCall rest = []"
      "filter isStoreCall tail = []"
      using up r t' by (simp_all add: filter_empty_conv)
    show ?thesis
      unfolding t using up r t' by (auto simp: f)
  qed
  have c4: "\<forall>now table. length (storeUpdate now (id' p) ?patch table) = length table \<and>
          (\<forall>j<length table.
              (id' (table ! j) \<noteq> id' p \<longrightarrow> storeUpdate now (id' p) ?patch table ! j = table ! j) \<and>
              (id' (table ! j) = id' p \<longrightarrow>
                 storeUpdate now (id' p) ?patch table ! j
                   = (applyFields ?patch (table ! j))\<lparr>updated_at := Some now\<rparr>))"
    by (simp add: storeUpdate_frame)
  have c5: "\<forall>row. id' (applyFields ?patch row) = id' row \<and>
             member_id (applyFields ?patch row) = member_id row \<and>
             month (applyFields ?patch row) = month row \<and>
             year (applyFields ?patch row) = year row \<and>
             status (applyFields ?patch row) = status row \<and>
             quick_pay_group_id (applyFields ?patch row) = quick_pay_group_id row \<and>
             created_at (applyFields ?patch row) = created_at row \<and>
             payment_type (applyFields ?patch row) = Some ''regular''"
    by (simp add: applyFields_def)
  have c3: "\<forall>np. SetPayments np \<in> set ?effs \<longrightarrow>
          map fst np = map fst ps \<and>
          (\<forall>k. k \<noteq> ?key \<longrightarrow> lookup np k = lookup ps k) \<and>
          lookup np ?key = Some ?new"
    using effs np by blast
  from effs have c1: "\<forall>e \<in> set ?effs. isStoreCall e \<longrightarrow> e = StoreUpdate (id' p) ?patch"
    and c2: "form_receiptFile form \<noteq> Some UploadFails \<longrightarrow> length (filter isStoreCall ?effs) = 1"
    by blast+
  show ?thesis
    by (intro exI [of _ ?patch] exI [of _ ?key] conjI refl c1 c2 c3 c4 c5)
qed


lemma exKeys:
  "getPaymentKey 2025 2026 ''m1'' 0 = ''m1-7-2025''"
  "getPaymentKey 2025 2026 ''m1'' (Suc 0) = ''m1-8-2025''"
  "getPaymentKey 2025 2026 ''m1'' 2 = ''m1-9-2025''"
  by (simp_all add: getPaymentKey_def mkKey_def numStr_def natStr.simps)

lemma exClicks:
  "handleCellClick 2025 2026 exLedger exMember 0
     = \<lparr>sp_memberId = ''m1'', sp_memberName = ''A'', sp_monthIndex = 0, sp_month = 7,
        sp_year = 2025, sp_payment = Some exPartial\<rparr>"
  "handleCellClick 2025 2026 exLedger exMember 1
     = \<lparr>sp_memberId = ''m1'', sp_memberName = ''A'', sp_monthIndex = 1, sp_month = 8,
        sp_year = 2025, sp_payment = Some exBenefit\<rparr>"
  "handleCellClick 2025 2026 exLedger exMember 2
     = \<lparr>sp_memberId = ''m1'', sp_memberName = ''A'', sp_monthIndex = 2, sp_month = 9,
        sp_year = 2025, sp_payment = None\<rparr>"
  by (simp_all add: handleCellClick_def exKeys exMember_def getMonthYear_def lookup_def
      exLedger_def)

theorem handleSavePayment_edit_existing_witness:
  "filter isStoreCall (handleSavePayment 2025 2026 exLedger (dbl 50) ''2025-07-05''
                  (Some (handleCellClick 2025 2026 exLedger exMember 1)) (exForm (dbl 50)) exRespOk)
   = [StoreUpdate ''p2'' \<lparr>f_amount = dbl 50, f_paid_at = Some ''2025-07-04'', f_receipt_url = None,
                           f_payment_type = Some ''regular'', f_notes = None\<rparr>]"
proof -
  let ?effs = "handleSavePayment 2025 2026 exLedger (dbl 50) ''2025-07-05''
                  (Some (handleCellClick 2025 2026 exLedger exMember 1)) (exForm (dbl 50)) exRespOk"
  let ?call = "StoreUpdate ''p2'' \<lparr>f_amount = dbl 50, f_paid_at = Some ''2025-07-04'',
                  f_receipt_url = None, f_payment_type = Some ''regular'', f_notes = None\<rparr>"
  have p: "sp_payment (handleCellClick 2025 2026 exLedger exMember 1) = Some exBenefit"
    unfolding exClicks by simp
  from handleSavePayment_edit_existing [OF refl p, of "exForm (dbl 50)" "dbl 50" "''2025-07-05''" exRespOk]
  have all: "\<forall>e \<in> set ?effs. isStoreCall e \<longrightarrow> e = ?call"
    and one: "length (filter isStoreCall ?effs) = 1"
    by (simp_all add: exForm_def exBenefit_def orZero_def orNull_def orNullOpt_def)
  from one obtain e where e: "filter isStoreCall ?effs = [e]"
    by (cases "filter isStoreCall ?effs") auto
  then have "e \<in> set (filter isStoreCall ?effs)" by simp
  then have "e \<in> set ?effs" "isStoreCall e" by simp_all
  with all have "e = ?call" by blast
  with e show ?thesis by simp
qed

text \<open>
  C4 as stated fails: editing the benefit entry of August 2025 changes a field outside the
  four the claim lists, the payment type.
\<close>

theorem handleSavePayment_edit_resets_payment_type:
  "handleSavePayment 2025 2026 exLedger (dbl 50) ''2025-07-05''
      (Some (handleCellClick 2025 2026 exLedger exMember 1)) (exForm (dbl 50)) exRespOk
   = [SetPayments [(''m1-7-2025'', exPartial),
                   (''m1-8-2025'', exBenefit\<lparr>amount := dbl 50, paid_at := Some ''2025-07-04'',
                                              payment_type := Some ''regular''\<rparr>)],
      StoreUpdate ''p2'' \<lparr>f_amount = dbl 50, f_paid_at = Some ''2025-07-04'', f_receipt_url = None,
                          f_payment_type = Some ''regular'', f_notes = None\<rparr>,
      SetPendingReceiptData \<lparr>r_totalAmount = dbl 50, r_amountPaid = dbl 50,
                             r_paymentDate = ''2025-07-04'', r_remaining = 0\<rparr>,
      ShowToast PagoActualizado] \<and>
   \<not> spec_onlyFourFields exBenefit
       (applyFields \<lparr>f_amount = dbl 50, f_paid_at = Some ''2025-07-04'', f_receipt_url = None,
                     f_payment_type = Some ''regular'', f_notes = None\<rparr> exBenefit)"
  unfolding exClicks
  by (simp add: handleSavePayment_def exForm_def exRespOk_def uploadIfChosen_def
      editExisting_def orZero_def orNull_def orNullOpt_def Let_def mkKey_def numStr_def
      natStr.simps exLedger_def exBenefit_def exPartial_def spec_onlyFourFields_def
      applyFields_def)

section \<open>Validation of the amount\<close>

text \<open>
  C8. A lump sum that is not positive should be rejected with a validation message before
  any store call. \<open>handleQuickPay\<close> does so; \<open>handleSavePayment\<close> does not check the
  amount. With amount 0 on the empty cell of September 2025 it reports success (no row is
  written only because nothing is distributed); with amount -5 on the existing entry of
  July 2025 it sends the update with amount -5 to the store.
\<close>

theorem handleSavePayment_nonpositive_amount:
  "handleSavePayment 2025 2026 exLedger (dbl 50) ''2025-07-05''
      (Some (handleCellClick 2025 2026 exLedger exMember 2)) (exForm 0) exRespOk
   = [SetPayments exLedger,
      SetPendingReceiptData \<lparr>r_totalAmount = 0, r_amountPaid = 0,
                             r_paymentDate = ''2025-07-04'', r_remaining = 0\<rparr>,
      ShowToast PagoGuardado] \<and>
   \<not> destructive PagoGuardado \<and>
   handleSavePayment 2025 2026 exLedger (dbl 50) ''2025-07-05''
      (Some (handleCellClick 2025 2026 exLedger exMember 0)) (exForm (dbl (- 5))) exRespOk
   = [SetPayments [(''m1-7-2025'', exPartial\<lparr>amount := dbl (- 5), paid_at := Some ''2025-07-04''\<rparr>),
                   (''m1-8-2025'', exBenefit)],
      StoreUpdate ''p1'' \<lparr>f_amount = dbl (- 5), f_paid_at = Some ''2025-07-04'', f_receipt_url = None,
                          f_payment_type = Some ''regular'', f_notes = None\<rparr>,
      SetPendingReceiptData \<lparr>r_totalAmount = dbl 50, r_amountPaid = dbl (- 5),
                             r_paymentDate = ''2025-07-04'', r_remaining = dbl 55\<rparr>,
      ShowToast PagoActualizado] \<and>
   handleQuickPay 2025 2026 exLedger (Some (openQuickPay (dbl 50) exMember)) (Some 0) ''2025-07-04''
      None ''g'' None
   = [ShowToast MontoMayorCero]"
  unfolding exClicks
  by (simp add: handleSavePayment_def saveNew_def computeUpdates_def distributeLoop.simps
      selectedStep_def exForm_def exRespOk_def
      uploadIfChosen_def editExisting_def orZero_def orNull_def orNullOpt_def Let_def mkKey_def
      numStr_def natStr.simps exLedger_def exBenefit_def exPartial_def handleQuickPay_def
      minus_double_def less_double_def zero_double_def dbl_eq_iff rnd_minus rnd_numeral)

lemma handleQuickPay_rejects_nonpositive:
  assumes "amt = None \<or> (\<exists>a. amt = Some a \<and> a \<le> 0)"
  shows "handleQuickPay cy ny ps (Some sq) amt date receipt gid insErr = [ShowToast MontoMayorCero]"
  using assms by (auto simp: handleQuickPay_def)


end
